theory Spec2Isabelle
  imports Complex_Main "HOL-Library.AList"
begin

section \<open>JavaScript values and library calls the tracker relies on\<close>

text \<open>
  The tracker (class \<open>TimeManager\<close>, year-file variant with schema tag \<open>v2\<close>) keeps
  JSON data in memory exactly as \<open>JSON.parse\<close> returned it.  A numeric property read
  from such an object is a number, or \<open>undefined\<close> when the key is missing, or \<open>null\<close>;
  arithmetic on \<open>undefined\<close> gives \<open>NaN\<close>.  Numbers are modelled as exact reals
  (floating-point rounding is outside the model).
\<close>

datatype jsnum = Undefined | Null | NaN | Num real

text \<open>\<open>!v\<close> is \<open>\<not> truthy v\<close>: \<open>undefined\<close>, \<open>null\<close>, \<open>NaN\<close> and \<open>0\<close> are falsy.\<close>

definition truthy :: "jsnum \<Rightarrow> bool" where
  "truthy v = (case v of Num r \<Rightarrow> r \<noteq> 0 | _ \<Rightarrow> False)"

text \<open>\<open>ToNumber\<close>: \<open>None\<close> stands for \<open>NaN\<close>; \<open>null\<close> converts to \<open>0\<close>.\<close>

definition toNumber :: "jsnum \<Rightarrow> real option" where
  "toNumber v = (case v of Undefined \<Rightarrow> None | Null \<Rightarrow> Some 0 | NaN \<Rightarrow> None | Num r \<Rightarrow> Some r)"

text \<open>The operator \<open>+\<close> (and \<open>+=\<close>) on two such values.\<close>

definition js_add :: "jsnum \<Rightarrow> jsnum \<Rightarrow> jsnum" where
  "js_add a b = (case toNumber a of None \<Rightarrow> NaN
                 | Some x \<Rightarrow> (case toNumber b of None \<Rightarrow> NaN | Some y \<Rightarrow> Num (x + y)))"

text \<open>
  \<open>JSON.stringify\<close> writes \<open>NaN\<close> as \<open>null\<close> and leaves out a property whose value is
  \<open>undefined\<close>; \<open>jsonNum\<close> is what \<open>JSON.parse(JSON.stringify(v))\<close> reads back.
\<close>

definition jsonNum :: "jsnum \<Rightarrow> jsnum" where
  "jsonNum v = (case v of NaN \<Rightarrow> Null | _ \<Rightarrow> v)"

text \<open>
  \<open>[...new Set(xs)]\<close>: a \<open>Set\<close> keeps the first occurrence of every element, in
  insertion order.
\<close>

definition set_add :: "'a list \<Rightarrow> 'a \<Rightarrow> 'a list" where
  "set_add s x = (if x \<in> set s then s else s @ [x])"

definition newSet :: "'a list \<Rightarrow> 'a list" where
  "newSet xs = foldl set_add [] xs"

datatype error = TypeError | SyntaxError | IOError

subsection \<open>Objects used as dictionaries\<close>

text \<open>
  \<open>days\<close>, \<open>projects\<close>, \<open>saves\<close> and \<open>activeProjects\<close> are plain objects, made by an
  object literal or by \<open>JSON.parse\<close>.  A property read \<open>obj[key]\<close> that finds no own key
  goes on to \<open>Object.prototype\<close>, whose members are found under their names: eleven
  functions, and the accessor \<open>__proto__\<close>, which returns \<open>Object.prototype\<close> itself.
  All of these are truthy; none is a \<open>Date\<close>, a number or an array, and none has a
  property \<open>getTime\<close>, \<open>projects\<close>, \<open>saves\<close>, \<open>branches\<close>, \<open>tasks\<close>, \<open>debugs\<close> or
  \<open>seconds\<close>.
\<close>

definition prototypeNames :: "string list" where
  "prototypeNames =
     [''constructor'', ''__defineGetter__'', ''__defineSetter__'', ''hasOwnProperty'',
      ''__lookupGetter__'', ''__lookupSetter__'', ''isPrototypeOf'', ''propertyIsEnumerable'',
      ''toString'', ''valueOf'', ''__proto__'', ''toLocaleString'']"

datatype 'a property = Own 'a | Inherited | Missing

definition getProperty :: "(string \<rightharpoonup> 'a) \<Rightarrow> string \<Rightarrow> 'a property" where
  "getProperty obj key =
     (case obj key of
        Some v \<Rightarrow> Own v
      | None \<Rightarrow> if key \<in> set prototypeNames then Inherited else Missing)"

text \<open>
  A method returns (\<open>Done\<close>) or throws (\<open>Thrown\<close>).  Objects are mutated in place, so
  the state reached when the exception was raised is kept with it.

  \<open>Outside s\<close>: the method has come to a write that is not to the tracker's own data.
  It is about to set a property of a member of \<open>Object.prototype\<close> that a lookup has
  handed it in place of an entry, or to replace the prototype of one of its
  dictionaries (an assignment to the name \<open>__proto__\<close>).  What later property reads
  find then depends on what was written there, anywhere in the program.  The model
  does not follow the method beyond this point: it stops in the state \<open>s\<close> reached, so
  that in every state of the model the objects of the prototype chain are as the
  language defines them.
\<close>

datatype 's outcome = Done 's | Thrown error 's | Outside 's

text \<open>The state a call leaves, however it ends.\<close>

definition stateOf :: "'s outcome \<Rightarrow> 's" where
  "stateOf r = (case r of Done s \<Rightarrow> s | Thrown e s \<Rightarrow> s | Outside s \<Rightarrow> s)"

subsection \<open>The clock\<close>

text \<open>
  One reading of \<open>new Date()\<close>: the epoch milliseconds (\<open>getTime\<close>) and the local
  calendar fields.  Every operation below is given the reading at which it runs; its
  body is synchronous, and all \<open>new Date()\<close> calls inside it see that reading.
\<close>

record Date =
  getTime :: int
  getFullYear :: int
  getMonth :: nat
  getDate :: nat

definition secondsSize :: "Date \<Rightarrow> int \<Rightarrow> real" where
  "secondsSize now pastTime = real_of_int (getTime now - pastTime) / 1000"

definition leapYear :: "int \<Rightarrow> bool" where
  "leapYear y = ((y mod 4 = 0 \<and> y mod 100 \<noteq> 0) \<or> y mod 400 = 0)"

text \<open>Months are numbered from 0, as \<open>getMonth\<close> does.\<close>

definition daysInMonth :: "int \<Rightarrow> nat \<Rightarrow> nat" where
  "daysInMonth y m =
     (if m = 1 then (if leapYear y then 29 else 28)
      else if m = 3 \<or> m = 5 \<or> m = 8 \<or> m = 10 then 30 else 31)"

fun previousDay :: "int \<times> nat \<times> nat \<Rightarrow> int \<times> nat \<times> nat" where
  "previousDay (y, m, d) =
     (if 1 < d then (y, m, d - 1)
      else if 0 < m then (y, m - 1, daysInMonth y (m - 1))
      else (y - 1, 11, 31))"

text \<open>
  \<open>specificDate.setDate(specificDate.getDate() - minusDays)\<close>: the calendar date
  \<open>minusDays\<close> days earlier (a day of the month below 1 rolls into the months before).
\<close>

primrec setDateBack :: "nat \<Rightarrow> int \<times> nat \<times> nat \<Rightarrow> int \<times> nat \<times> nat" where
  "setDateBack 0 dt = dt"
| "setDateBack (Suc k) dt = setDateBack k (previousDay dt)"

definition digit :: "nat \<Rightarrow> char" where
  "digit d = ''0123456789'' ! d"

fun decimal :: "nat \<Rightarrow> string" where
  "decimal n = (if n < 10 then [digit n] else decimal (n div 10) @ [digit (n mod 10)])"

declare decimal.simps [simp del]

definition decimalInt :: "int \<Rightarrow> string" where
  "decimalInt i = (if i < 0 then ''-'' @ decimal (nat (- i)) else decimal (nat i))"

text \<open>The day key \<open>`${getDate()}/${getMonth()+1}/${getFullYear()}`\<close>.\<close>

definition dateString :: "Date \<Rightarrow> nat \<Rightarrow> string" where
  "dateString now minusDays =
     (case setDateBack minusDays (getFullYear now, getMonth now, getDate now) of
        (y, m, d) \<Rightarrow> decimal d @ ''/'' @ decimal (m + 1) @ ''/'' @ decimalInt y)"

section \<open>The data model\<close>

text \<open>
  \<open>TrackerDetails\<close>, \<open>DayData\<close> and \<open>TrackerFile\<close> as the source declares them.
  The objects come from \<open>JSON.parse\<close>, and the code itself tests which properties
  are there, so a property that may be missing is optional here: \<open>Undefined\<close> for a
  counter, \<open>None\<close> for \<open>branches\<close>, \<open>projects\<close>, \<open>saves\<close> and \<open>days\<close>
  (a \<open>null\<close> in their place behaves the same in every test the code makes).
  An object used as a dictionary is a map from its own keys; what a read of a key
  finds is \<open>getProperty\<close> of that map.
\<close>

record TrackerDetails =
  branches :: "string list option"
  tasks :: jsnum
  debugs :: jsnum
  seconds :: jsnum

record DayData =
  projects :: "(string \<rightharpoonup> TrackerDetails) option"
  saves :: "(string \<rightharpoonup> jsnum) option"

record TrackerFile =
  version :: string
  days :: "(string \<rightharpoonup> DayData) option"

definition CURRENT_SCHEMA_VERSION :: string where
  "CURRENT_SCHEMA_VERSION = ''v2''"

text \<open>
  \<open>ActiveProjectList\<close>: the session start (epoch milliseconds of the \<open>Date\<close>) per
  project name, as an association list in the order \<open>for ... in\<close> and \<open>Object.keys\<close>
  enumerate the keys.
\<close>

record TimeManager =
  store :: TrackerFile
  activeProjects :: "(string \<times> int) list"

text \<open>The field initialisers of the class.\<close>

definition newTimeManager :: TimeManager where
  "newTimeManager =
     \<lparr>store = \<lparr>version = CURRENT_SCHEMA_VERSION, days = Some Map.empty\<rparr>, activeProjects = []\<rparr>"

text \<open>
  What \<open>readFile\<close> followed by \<open>JSON.parse\<close> makes of the tracker file: \<open>readFile\<close>
  rejects (no such file, or not readable), \<open>JSON.parse\<close> throws on the text, or the
  text parses to a store.
\<close>

datatype disk = NoFile | Malformed | Content TrackerFile

text \<open>\<open>Partial<TrackerDetails>\<close>: the keys a caller of \<open>updateDetails\<close> passes.\<close>

record PartialDetails =
  p_branches :: "string list option"
  p_tasks :: "real option"
  p_debugs :: "real option"
  p_seconds :: "real option"

definition noDetails :: PartialDetails where
  "noDetails = \<lparr>p_branches = None, p_tasks = None, p_debugs = None, p_seconds = None\<rparr>"

section \<open>Schema normalisation\<close>

definition freshDetails :: TrackerDetails where
  "freshDetails = \<lparr>branches = Some [], tasks = Num 0, debugs = Num 0, seconds = Num 0\<rparr>"

text \<open>The four \<open>if (!...)\<close> repairs of \<open>fixProject\<close> on an entry that exists.\<close>

definition fixDetails :: "TrackerDetails \<Rightarrow> TrackerDetails" where
  "fixDetails d =
     \<lparr>branches = (case branches d of None \<Rightarrow> Some [] | Some b \<Rightarrow> Some b),
      tasks = (if truthy (tasks d) then tasks d else Num 0),
      debugs = (if truthy (debugs d) then debugs d else Num 0),
      seconds = (if truthy (seconds d) then seconds d else Num 0)\<rparr>"

text \<open>
  \<open>fixProject(id)\<close>: an own entry is repaired, a missing one is created.  When
  \<open>projects[id]\<close> is a member of \<open>Object.prototype\<close>, the test \<open>if (projects[id])\<close>
  passes and the first repair, \<open>projects[id].branches = []\<close>, is a write to that
  member: the result is \<open>None\<close>.
\<close>

definition fixProject :: "string \<Rightarrow> (string \<rightharpoonup> TrackerDetails) \<Rightarrow> (string \<rightharpoonup> TrackerDetails) option" where
  "fixProject pid prj =
     (case getProperty prj pid of
        Own d \<Rightarrow> Some (prj(pid \<mapsto> fixDetails d))
      | Inherited \<Rightarrow> None
      | Missing \<Rightarrow> Some (prj(pid \<mapsto> freshDetails)))"

text \<open>
  \<open>for (const id in projects) fixProject(id)\<close>: every key is an own key, so each
  entry is repaired in place.
\<close>

definition fixAllProjects :: "(string \<rightharpoonup> TrackerDetails) \<Rightarrow> (string \<rightharpoonup> TrackerDetails)" where
  "fixAllProjects prj = (\<lambda>pid. map_option fixDetails (prj pid))"

text \<open>
  The body of \<open>validateDaySchema\<close> on the day object found under \<open>chosenDay\<close>
  (\<open>None\<close> when there is none): the day, its \<open>projects\<close> and its \<open>saves\<close> are made
  where they are missing, then the project filter is applied.  \<open>if (project.id)\<close> is
  a truthiness test: the empty string does not pass it.  When \<open>fixProject\<close> comes to
  a member of \<open>Object.prototype\<close>, the day is left as made so far.
\<close>

definition validateDay :: "DayData option \<Rightarrow> string option \<Rightarrow> bool \<Rightarrow> DayData outcome" where
  "validateDay day pid all =
     (let d0 = (case day of None \<Rightarrow> \<lparr>projects = Some Map.empty, saves = Some Map.empty\<rparr>
                | Some d \<Rightarrow> d);
          prj = (case projects d0 of None \<Rightarrow> Map.empty | Some p \<Rightarrow> p);
          sv = (case saves d0 of None \<Rightarrow> Map.empty | Some s \<Rightarrow> s);
          others = (if all then fixAllProjects prj else prj)
      in case pid of
           None \<Rightarrow> Done \<lparr>projects = Some others, saves = Some sv\<rparr>
         | Some i \<Rightarrow>
             if i \<noteq> []
             then (case fixProject i prj of
                     None \<Rightarrow> Outside \<lparr>projects = Some prj, saves = Some sv\<rparr>
                   | Some fixed \<Rightarrow> Done \<lparr>projects = Some fixed, saves = Some sv\<rparr>)
             else Done \<lparr>projects = Some others, saves = Some sv\<rparr>)"

text \<open>
  \<open>validateDaySchema\<close> on the store.  A \<open>chosenDay\<close> that is no own key of \<open>days\<close>
  but names a member of \<open>Object.prototype\<close> passes the test
  \<open>if (!this.store.days[chosenDay])\<close>, and \<open>this.store.days[chosenDay].projects = {}\<close>
  is a write to that member.
\<close>

definition validateDaySchema :: "string \<Rightarrow> string option \<Rightarrow> bool \<Rightarrow> TrackerFile \<Rightarrow> TrackerFile outcome" where
  "validateDaySchema chosenDay pid all st =
     (case days st of
        None \<Rightarrow> Thrown TypeError st
      | Some ds \<Rightarrow>
          (case getProperty ds chosenDay of
             Inherited \<Rightarrow> Outside st
           | _ \<Rightarrow>
               (case validateDay (ds chosenDay) pid all of
                  Done d \<Rightarrow> Done (st\<lparr>days := Some (ds(chosenDay \<mapsto> d))\<rparr>)
                | Thrown e d \<Rightarrow> Thrown e (st\<lparr>days := Some (ds(chosenDay \<mapsto> d))\<rparr>)
                | Outside d \<Rightarrow> Outside (st\<lparr>days := Some (ds(chosenDay \<mapsto> d))\<rparr>))))"

section \<open>Mutation\<close>

text \<open>
  The loop of \<open>updateDetails\<close> over the keys of \<open>details\<close>: an array is merged
  through a \<open>Set\<close>, a key of \<open>ADD_PROPS\<close> is added with \<open>+=\<close>.
\<close>

definition applyDetails :: "TrackerDetails \<Rightarrow> PartialDetails \<Rightarrow> TrackerDetails" where
  "applyDetails existingData details =
     \<lparr>branches = (case p_branches details of
                    None \<Rightarrow> branches existingData
                  | Some bs \<Rightarrow>
                      Some (newSet ((case branches existingData of None \<Rightarrow> [] | Some b \<Rightarrow> b) @ bs))),
      tasks = (case p_tasks details of None \<Rightarrow> tasks existingData
               | Some v \<Rightarrow> js_add (tasks existingData) (Num v)),
      debugs = (case p_debugs details of None \<Rightarrow> debugs existingData
                | Some v \<Rightarrow> js_add (debugs existingData) (Num v)),
      seconds = (case p_seconds details of None \<Rightarrow> seconds existingData
                 | Some v \<Rightarrow> js_add (seconds existingData) (Num v))\<rparr>"

text \<open>
  \<open>updateDetails\<close>.  When \<open>existingData\<close> is \<open>undefined\<close> (the project id did not
  pass the test in \<open>validateDaySchema\<close> and has no entry), the first key of
  \<open>details\<close> raises a \<open>TypeError\<close>, after the day has been normalised.  When it
  is a member of \<open>Object.prototype\<close>, the first key of \<open>details\<close> is written to
  that member.
\<close>

definition updateDetails :: "Date \<Rightarrow> string \<Rightarrow> PartialDetails \<Rightarrow> TrackerFile \<Rightarrow> TrackerFile outcome" where
  "updateDetails now projectId details st =
     (let today = dateString now 0 in
      case validateDaySchema today (Some projectId) False st of
        Thrown e s \<Rightarrow> Thrown e s
      | Outside s \<Rightarrow> Outside s
      | Done st1 \<Rightarrow>
          (case days st1 of None \<Rightarrow> Thrown TypeError st1 | Some ds \<Rightarrow>
           (case ds today of None \<Rightarrow> Thrown TypeError st1 | Some day \<Rightarrow>
            (case projects day of None \<Rightarrow> Thrown TypeError st1 | Some prj \<Rightarrow>
             (case getProperty prj projectId of
                Missing \<Rightarrow> if details = noDetails then Done st1 else Thrown TypeError st1
              | Inherited \<Rightarrow> if details = noDetails then Done st1 else Outside st1
              | Own existingData \<Rightarrow>
                  Done (st1\<lparr>days := Some (ds(today \<mapsto>
                    day\<lparr>projects := Some (prj(projectId \<mapsto> applyDetails existingData details))\<rparr>))\<rparr>))))))"

text \<open>The methods work on the manager; a workspace folder is used by its name only.\<close>

definition onStore :: "(TrackerFile \<Rightarrow> TrackerFile outcome) \<Rightarrow> TimeManager \<Rightarrow> TimeManager outcome" where
  "onStore f tm =
     (case f (store tm) of
        Done st \<Rightarrow> Done (tm\<lparr>store := st\<rparr>)
      | Thrown e st \<Rightarrow> Thrown e (tm\<lparr>store := st\<rparr>)
      | Outside st \<Rightarrow> Outside (tm\<lparr>store := st\<rparr>))"

definition addBranch :: "Date \<Rightarrow> string \<Rightarrow> string \<Rightarrow> TimeManager \<Rightarrow> TimeManager outcome" where
  "addBranch now ws branch = onStore (updateDetails now ws (noDetails\<lparr>p_branches := Some [branch]\<rparr>))"





text \<open>
  \<open>startTracking\<close>: \<open>this.activeProjects[ws.name] = new Date()\<close> sets an own key,
  new keys last.  Under the name \<open>__proto__\<close> (when no own key has it) the assignment
  goes to the accessor of \<open>Object.prototype\<close> and makes the \<open>Date\<close> the prototype of
  \<open>this.activeProjects\<close>; no key is made.
\<close>

definition startTracking :: "Date \<Rightarrow> string \<Rightarrow> TimeManager \<Rightarrow> TimeManager outcome" where
  "startTracking now ws tm =
     (if ws = ''__proto__'' \<and> map_of (activeProjects tm) ws = None then Outside tm
      else Done (tm\<lparr>activeProjects := AList.update ws (getTime now) (activeProjects tm)\<rparr>))"

text \<open>
  \<open>updateDaySeconds\<close>: nothing without a session; otherwise the clamped elapsed time
  goes through \<open>updateDetails\<close> and the session start is reset.  A \<open>Date\<close> object is
  always truthy.  So is the member of \<open>Object.prototype\<close> that
  \<open>this.activeProjects[specificProject]\<close> finds when the name has no session but is
  the name of such a member: \<open>!start\<close> is false, and \<open>secondsSize\<close> calls
  \<open>pastTime.getTime\<close>, which is \<open>undefined\<close>.
\<close>

definition updateDaySeconds :: "Date \<Rightarrow> string \<Rightarrow> TimeManager \<Rightarrow> TimeManager outcome" where
  "updateDaySeconds now specificProject tm =
     (case getProperty (map_of (activeProjects tm)) specificProject of
        Missing \<Rightarrow> Done tm
      | Inherited \<Rightarrow> Thrown TypeError tm
      | Own start \<Rightarrow>
          (let secs = max 0 (secondsSize now start) in
           case updateDetails now specificProject (noDetails\<lparr>p_seconds := Some secs\<rparr>) (store tm) of
             Thrown e st \<Rightarrow> Thrown e (tm\<lparr>store := st\<rparr>)
           | Outside st \<Rightarrow> Outside (tm\<lparr>store := st\<rparr>)
           | Done st \<Rightarrow>
               Done (tm\<lparr>store := st,
                        activeProjects := AList.update specificProject (getTime now) (activeProjects tm)\<rparr>)))"

definition endTracking :: "Date \<Rightarrow> string \<Rightarrow> TimeManager \<Rightarrow> TimeManager outcome" where
  "endTracking now ws tm =
     (case updateDaySeconds now ws tm of
        Thrown e t \<Rightarrow> Thrown e t
      | Outside t \<Rightarrow> Outside t
      | Done t \<Rightarrow> Done (t\<lparr>activeProjects := AList.delete ws (activeProjects t)\<rparr>))"

text \<open>
  The loop of \<open>updateAllDaySeconds\<close> over the keys of \<open>activeProjects\<close>; the first
  exception ends it.
\<close>

fun settleEach :: "Date \<Rightarrow> string list \<Rightarrow> TimeManager \<Rightarrow> TimeManager outcome" where
  "settleEach now [] tm = Done tm"
| "settleEach now (wsName # rest) tm =
     (case updateDaySeconds now wsName tm of
        Thrown e t \<Rightarrow> Thrown e t
      | Outside t \<Rightarrow> Outside t
      | Done t \<Rightarrow> settleEach now rest t)"

definition updateAllDaySeconds :: "Date \<Rightarrow> TimeManager \<Rightarrow> TimeManager outcome" where
  "updateAllDaySeconds now tm = settleEach now (map fst (activeProjects tm)) tm"

definition getTracking :: "TimeManager \<Rightarrow> string list" where
  "getTracking tm = map fst (activeProjects tm)"

section \<open>Persistence\<close>

text \<open>
  \<open>JSON.parse(JSON.stringify(x))\<close> on the tracker's objects: the same structure
  with \<open>NaN\<close> written as \<open>null\<close> and properties holding \<open>undefined\<close> dropped.  It is
  what a reader of the saved file gets, and the deep clone \<open>getStats\<close> makes.
\<close>

definition jsonDetails :: "TrackerDetails \<Rightarrow> TrackerDetails" where
  "jsonDetails d =
     \<lparr>branches = branches d, tasks = jsonNum (tasks d), debugs = jsonNum (debugs d),
      seconds = jsonNum (seconds d)\<rparr>"

definition jsonSaves :: "(string \<rightharpoonup> jsnum) \<Rightarrow> (string \<rightharpoonup> jsnum)" where
  "jsonSaves sv =
     (\<lambda>ext. case sv ext of None \<Rightarrow> None | Some Undefined \<Rightarrow> None | Some v \<Rightarrow> Some (jsonNum v))"

definition jsonDay :: "DayData \<Rightarrow> DayData" where
  "jsonDay d =
     \<lparr>projects = map_option (\<lambda>prj pid. map_option jsonDetails (prj pid)) (projects d),
      saves = map_option jsonSaves (saves d)\<rparr>"

definition jsonStore :: "TrackerFile \<Rightarrow> TrackerFile" where
  "jsonStore st =
     \<lparr>version = version st,
      days = map_option (\<lambda>ds day. map_option jsonDay (ds day)) (days st)\<rparr>"

text \<open>
  The \<open>try\<close> block of \<open>load\<close>: the parsed value becomes the store; when its version
  tag is not the current one, every day is normalised with \<open>{all: true}\<close> and the tag
  is set.  \<open>for (const day in this.store.days)\<close> does nothing when \<open>days\<close> is missing;
  its keys are own keys, and with no project id \<open>validateDaySchema\<close> returns.
\<close>

definition loadBody :: "disk \<Rightarrow> TimeManager \<Rightarrow> TimeManager outcome" where
  "loadBody f tm =
     (case f of
        NoFile \<Rightarrow> Thrown IOError tm
      | Malformed \<Rightarrow> Thrown SyntaxError tm
      | Content parsed \<Rightarrow>
          Done (tm\<lparr>store :=
            (if version parsed \<noteq> CURRENT_SCHEMA_VERSION
             then \<lparr>version = CURRENT_SCHEMA_VERSION,
                   days = map_option
                     (\<lambda>ds day. map_option (\<lambda>d. stateOf (validateDay (Some d) None True)) (ds day))
                     (days parsed)\<rparr>
             else parsed)\<rparr>))"

text \<open>\<open>load\<close>: the \<open>catch\<close> clause logs the error and returns.\<close>

definition load :: "disk \<Rightarrow> TimeManager \<Rightarrow> TimeManager outcome" where
  "load f tm = (case loadBody f tm of Done t \<Rightarrow> Done t | Thrown e t \<Rightarrow> Done t | Outside t \<Rightarrow> Outside t)"

text \<open>
  The loop of \<open>checkForChanges\<close> over \<open>Object.keys(this.activeProjects)\<close>:
  \<open>mem\<close> is \<open>this.store.days[today].projects\<close>, \<open>upd\<close> is \<open>updatedProjects\<close>.
  Reading a key of a missing \<open>mem\<close>, or writing a key of a missing \<open>upd\<close>, is a
  \<open>TypeError\<close>.  When \<open>mem[pid]\<close> is one of the functions of \<open>Object.prototype\<close>, that
  function is stored under \<open>pid\<close>: \<open>JSON.stringify\<close> leaves out a property holding a
  function, and a read of \<open>pid\<close> finds the same function with or without the own
  key, so the key is as good as missing.  An assignment to the name \<open>__proto__\<close> sets
  an own key that is there; otherwise it replaces the prototype of \<open>updatedProjects\<close>
  (by \<open>Object.prototype\<close> itself, which changes nothing).
\<close>

fun mergeActive ::
  "string list \<Rightarrow> (string \<rightharpoonup> TrackerDetails) option \<Rightarrow> (string \<rightharpoonup> TrackerDetails) option
     \<Rightarrow> (string \<rightharpoonup> TrackerDetails) option outcome" where
  "mergeActive [] mem upd = Done upd"
| "mergeActive (pid # pids) mem upd =
     (case mem of
        None \<Rightarrow> Thrown TypeError upd
      | Some m \<Rightarrow>
          (case getProperty m pid of
             Missing \<Rightarrow> mergeActive pids mem upd
           | Own d \<Rightarrow>
               (case upd of
                  None \<Rightarrow> Thrown TypeError upd
                | Some u \<Rightarrow>
                    if pid = ''__proto__'' \<and> u pid = None then Outside upd
                    else mergeActive pids mem (Some (u(pid \<mapsto> d))))
           | Inherited \<Rightarrow>
               (case upd of
                  None \<Rightarrow> Thrown TypeError upd
                | Some u \<Rightarrow>
                    if pid = ''__proto__''
                    then (if u pid = None then mergeActive pids mem upd else Outside upd)
                    else mergeActive pids mem (Some (u(pid := None))))))"

definition checkForChanges :: "Date \<Rightarrow> disk \<Rightarrow> TimeManager \<Rightarrow> TimeManager outcome" where
  "checkForChanges now f tm =
     (case f of
        NoFile \<Rightarrow> Thrown IOError tm
      | Malformed \<Rightarrow> Thrown SyntaxError tm
      | Content loadedStore \<Rightarrow>
          (let today = dateString now 0 in
           case days (store tm) of None \<Rightarrow> Thrown TypeError tm | Some ds \<Rightarrow>
           (case ds today of None \<Rightarrow> Done tm | Some memDay \<Rightarrow>
            (case days loadedStore of None \<Rightarrow> Done tm | Some lds \<Rightarrow>
             (case lds today of None \<Rightarrow> Done tm | Some loadedDay \<Rightarrow>
              (case mergeActive (map fst (activeProjects tm)) (projects memDay) (projects loadedDay) of
                 Thrown e u \<Rightarrow> Thrown e tm
               | Outside u \<Rightarrow> Outside tm
               | Done updatedProjects \<Rightarrow>
                   Done (tm\<lparr>store := (store tm)\<lparr>days :=
                     Some (ds(today \<mapsto> memDay\<lparr>projects := updatedProjects\<rparr>))\<rparr>\<rparr>)))))))"

text \<open>
  \<open>save\<close> on the manager and the file: when \<open>checkForChanges\<close> throws, nothing is
  written; otherwise the file holds the serialised store (\<open>writeFile\<close> is taken to
  succeed).
\<close>

definition save :: "Date \<Rightarrow> disk \<Rightarrow> TimeManager \<Rightarrow> (TimeManager \<times> disk) outcome" where
  "save now f tm =
     (case checkForChanges now f tm of
        Thrown e t \<Rightarrow> Thrown e (t, f)
      | Outside t \<Rightarrow> Outside (t, f)
      | Done t \<Rightarrow> Done (t, Content (jsonStore (store t))))"

section \<open>Queries\<close>

text \<open>
  The live adjustment of \<open>getStats\<close>: the loop over the keys of the clone's
  \<open>projects\<close> adds the unclamped \<open>secondsSize\<close> to every entry whose name has a session.
  For a key that has no session but names a member of \<open>Object.prototype\<close>,
  \<open>this.activeProjects[wsName]\<close> is that member: the test \<open>if (activeProjectStarted)\<close>
  passes and \<open>secondsSize\<close> raises a \<open>TypeError\<close>, whichever key the loop comes to
  first (the clone it has changed by then is dropped).
\<close>

definition liveAdjust ::
  "Date \<Rightarrow> (string \<times> int) list \<Rightarrow> (string \<rightharpoonup> TrackerDetails) \<Rightarrow> error + (string \<rightharpoonup> TrackerDetails)" where
  "liveAdjust now active prj =
     (if \<exists>wsName \<in> set prototypeNames.
           prj wsName \<noteq> None \<and> getProperty (map_of active) wsName = Inherited
      then Inl TypeError
      else Inr (\<lambda>wsName. case prj wsName of
                  None \<Rightarrow> None
                | Some d \<Rightarrow>
                    (case getProperty (map_of active) wsName of
                       Own activeProjectStarted \<Rightarrow>
                         Some (d\<lparr>seconds := js_add (seconds d) (Num (secondsSize now activeProjectStarted))\<rparr>)
                     | _ \<Rightarrow> Some d)))"

text \<open>
  \<open>getStats\<close>.  A \<open>day\<close> that is no own key of \<open>days\<close> but the name of a function of
  \<open>Object.prototype\<close> passes the test; \<open>JSON.stringify\<close> of a function is
  \<open>undefined\<close>, which \<open>JSON.parse\<close> rejects.  Under \<open>__proto__\<close> the object found is
  \<open>Object.prototype\<close>, whose clone is \<open>{}\<close>.
\<close>

definition getStats :: "Date \<Rightarrow> string \<Rightarrow> TimeManager \<Rightarrow> error + DayData option" where
  "getStats now day tm =
     (case days (store tm) of
        None \<Rightarrow> Inl TypeError
      | Some ds \<Rightarrow>
          (case getProperty ds day of
             Missing \<Rightarrow> Inr None
           | Inherited \<Rightarrow>
               if day = ''__proto__'' then Inr (Some \<lparr>projects = None, saves = None\<rparr>)
               else Inl SyntaxError
           | Own stored \<Rightarrow>
               (let storedStats = jsonDay stored in
                if day = dateString now 0
                then (case projects storedStats of
                        None \<Rightarrow> Inr (Some storedStats)
                      | Some prj \<Rightarrow>
                          (case liveAdjust now (activeProjects tm) prj of
                             Inl e \<Rightarrow> Inl e
                           | Inr adjusted \<Rightarrow> Inr (Some (storedStats\<lparr>projects := Some adjusted\<rparr>))))
                else Inr (Some storedStats))))"

text \<open>
  \<open>getDays\<close>: the keys of the last \<open>lastAmount\<close> days, today first; for a falsy
  \<open>lastAmount\<close> the reversed keys of the store object itself.  These are the
  top-level keys of the file it was parsed from, in the order they have there (for
  the store of the field initialiser \<open>version\<close>, \<open>days\<close>); the order is not part of
  \<open>TrackerFile\<close>, so \<open>Object.keys(this.store)\<close> is given as \<open>storeKeys\<close>.
\<close>

definition getDays :: "Date \<Rightarrow> string list \<Rightarrow> nat \<Rightarrow> string list" where
  "getDays now storeKeys lastAmount =
     (if lastAmount \<noteq> 0 then map (dateString now) [0..<lastAmount]
      else rev storeKeys)"

text \<open>
  The loop of \<open>getStatsForPeriod\<close> over the day keys, \<open>stats\<close> being the running
  total.  When \<open>project\<close> is no own key of the day's \<open>projects\<close> but the name of a
  member of \<open>Object.prototype\<close>, the test \<open>dayStats.projects[project]\<close> passes, and
  the member's \<open>seconds\<close>, \<open>tasks\<close> and \<open>debugs\<close>, all \<open>undefined\<close>, are added; it has
  no \<open>branches\<close>.
\<close>

fun addDayStats ::
  "Date \<Rightarrow> TimeManager \<Rightarrow> string \<Rightarrow> string list \<Rightarrow> TrackerDetails \<Rightarrow> error + TrackerDetails" where
  "addDayStats now tm project [] stats = Inr stats"
| "addDayStats now tm project (day # rest) stats =
     (case getStats now day tm of
        Inl e \<Rightarrow> Inl e
      | Inr None \<Rightarrow> addDayStats now tm project rest stats
      | Inr (Some dayStats) \<Rightarrow>
          (case projects dayStats of
             None \<Rightarrow> Inl TypeError
           | Some prj \<Rightarrow>
               (case getProperty prj project of
                  Missing \<Rightarrow> addDayStats now tm project rest stats
                | Inherited \<Rightarrow>
                    addDayStats now tm project rest
                      \<lparr>branches = branches stats,
                       tasks = js_add (tasks stats) Undefined,
                       debugs = js_add (debugs stats) Undefined,
                       seconds = js_add (seconds stats) Undefined\<rparr>
                | Own d \<Rightarrow>
                    (case (case branches d of
                             None \<Rightarrow> Inr (branches stats)
                           | Some bs \<Rightarrow>
                               (case branches stats of
                                  None \<Rightarrow> Inl TypeError
                                | Some sb \<Rightarrow> Inr (Some (newSet (sb @ bs))))) of
                       Inl e \<Rightarrow> Inl e
                     | Inr merged \<Rightarrow>
                         addDayStats now tm project rest
                           \<lparr>branches = merged,
                            tasks = js_add (tasks stats) (tasks d),
                            debugs = js_add (debugs stats) (debugs d),
                            seconds = js_add (seconds stats) (seconds d)\<rparr>))))"

definition getStatsForPeriod ::
  "Date \<Rightarrow> string list \<Rightarrow> string \<Rightarrow> nat \<Rightarrow> TimeManager \<Rightarrow> error + TrackerDetails" where
  "getStatsForPeriod now storeKeys project n tm =
     addDayStats now tm project (getDays now storeKeys n) freshDetails"

section \<open>Observations on a store\<close>

text \<open>
  Reading a store the way the claims speak about it: the ledger of a day, the entry
  of a project under a day, a save count, and a counter's numeric value.  These are
  the own keys of the objects, which is what a saved file holds.
\<close>

definition projectsOf :: "DayData option \<Rightarrow> (string \<rightharpoonup> TrackerDetails)" where
  "projectsOf day = (case day of None \<Rightarrow> Map.empty
                     | Some d \<Rightarrow> (case projects d of None \<Rightarrow> Map.empty | Some p \<Rightarrow> p))"

definition savesOf :: "DayData option \<Rightarrow> (string \<rightharpoonup> jsnum)" where
  "savesOf day = (case day of None \<Rightarrow> Map.empty
                  | Some d \<Rightarrow> (case saves d of None \<Rightarrow> Map.empty | Some s \<Rightarrow> s))"

definition lookupDay :: "TrackerFile \<Rightarrow> string \<Rightarrow> DayData option" where
  "lookupDay st day = (case days st of None \<Rightarrow> None | Some ds \<Rightarrow> ds day)"

definition lookupProject :: "TrackerFile \<Rightarrow> string \<Rightarrow> string \<Rightarrow> TrackerDetails option" where
  "lookupProject st day p = projectsOf (lookupDay st day) p"

definition lookupSave :: "TrackerFile \<Rightarrow> string \<Rightarrow> string \<Rightarrow> jsnum option" where
  "lookupSave st day ext = savesOf (lookupDay st day) ext"

text \<open>
  \<open>validateDaySchema\<close> with the id \<open>p\<close> leaves \<open>p\<close> with an entry of its own under
  \<open>day\<close>: the id passes the truthiness test, and what \<open>fixProject\<close> finds under it
  is an own entry or nothing at all.
\<close>

definition entersLedger :: "TrackerFile \<Rightarrow> string \<Rightarrow> string \<Rightarrow> bool" where
  "entersLedger st day p = (p \<noteq> [] \<and> (lookupProject st day p = None \<longrightarrow> p \<notin> set prototypeNames))"

text \<open>
  The entry \<open>updateDetails\<close> works on once \<open>fixProject\<close> has run: the repaired
  entry, or a fresh one.
\<close>

definition entryFor :: "TrackerFile \<Rightarrow> string \<Rightarrow> string \<Rightarrow> TrackerDetails" where
  "entryFor st day p = (case lookupProject st day p of None \<Rightarrow> freshDetails | Some d \<Rightarrow> fixDetails d)"

definition num :: "jsnum \<Rightarrow> real" where
  "num v = (case v of Num r \<Rightarrow> r | _ \<Rightarrow> 0)"

definition isNum :: "jsnum \<Rightarrow> bool" where
  "isNum v = (case v of Num r \<Rightarrow> True | _ \<Rightarrow> False)"

text \<open>The branch collection of a project under a day: empty when there is none.\<close>

definition branchesOf :: "TrackerFile \<Rightarrow> string \<Rightarrow> string \<Rightarrow> string list" where
  "branchesOf st day p =
     (case lookupProject st day p of
        None \<Rightarrow> []
      | Some d \<Rightarrow> (case branches d of None \<Rightarrow> [] | Some bs \<Rightarrow> bs))"

definition branchesDistinct :: "TrackerFile \<Rightarrow> bool" where
  "branchesDistinct st = (\<forall>day p. distinct (branchesOf st day p))"

text \<open>
  A sequence of \<open>addBranch\<close> calls, each at its own clock reading; a call that throws
  leaves the state it reached, and the next call goes on from there.  The sequence
  is followed as far as the model goes: it ends with the first call that is
  \<open>Outside\<close>.
\<close>

fun addBranchCalls :: "(Date \<times> string \<times> string) list \<Rightarrow> TimeManager \<Rightarrow> TimeManager" where
  "addBranchCalls [] tm = tm"
| "addBranchCalls ((now, ws, branch) # calls) tm =
     (case addBranch now ws branch tm of
        Done t \<Rightarrow> addBranchCalls calls t
      | Thrown e t \<Rightarrow> addBranchCalls calls t
      | Outside t \<Rightarrow> t)"

text \<open>The argument \<open>{ branches: [branch] }\<close> of \<open>addBranch\<close>.\<close>

definition branchDelta :: "string \<Rightarrow> PartialDetails" where
  "branchDelta b = noDetails\<lparr>p_branches := Some [b]\<rparr>"


text \<open>A clock reading for the worked examples: 3 November 2026, local time.\<close>

definition clock0 :: Date where
  "clock0 = \<lparr>getTime = 1793700000000, getFullYear = 2026, getMonth = 10, getDate = 3\<rparr>"

text \<open>The argument \<open>{ seconds }\<close> of \<open>updateDaySeconds\<close>.\<close>

definition secondsDelta :: "real \<Rightarrow> PartialDetails" where
  "secondsDelta v = noDetails\<lparr>p_seconds := Some v\<rparr>"

text \<open>
  The seconds recorded for a project under a day, as a number: \<open>0\<close> when there is no
  entry or no number in it.
\<close>

definition recordedSeconds :: "TrackerFile \<Rightarrow> string \<Rightarrow> string \<Rightarrow> real" where
  "recordedSeconds st day p = (case lookupProject st day p of None \<Rightarrow> 0 | Some d \<Rightarrow> num (seconds d))"

definition secondsNonneg :: "TrackerFile \<Rightarrow> bool" where
  "secondsNonneg st = (\<forall>day p d r. lookupProject st day p = Some d \<longrightarrow> seconds d = Num r \<longrightarrow> 0 \<le> r)"

text \<open>The time a settle adds for a session that began at \<open>start\<close>.\<close>

definition settled :: "Date \<Rightarrow> int \<Rightarrow> real" where
  "settled now start = max 0 (secondsSize now start)"

text \<open>A manager with one session, for \<open>proj\<close>, begun ten seconds before \<open>clock0\<close>.\<close>

definition tracking0 :: TimeManager where
  "tracking0 = stateOf (startTracking (clock0\<lparr>getTime := 1793699990000\<rparr>) ''proj'' newTimeManager)"

text \<open>A reading ten seconds before that session began: the clock has been set back.\<close>

definition clockBack :: Date where
  "clockBack = clock0\<lparr>getTime := 1793699980000\<rparr>"

section \<open>The schema-completeness invariant\<close>

text \<open>
  An entry is complete when its four fields are there and the counters are numbers;
  a ledger is complete when it has \<open>projects\<close> and \<open>saves\<close> and all its entries
  are complete; a store is complete when every ledger under \<open>days\<close> is.
\<close>

definition completeDetails :: "TrackerDetails \<Rightarrow> bool" where
  "completeDetails d = (branches d \<noteq> None \<and> isNum (tasks d) \<and> isNum (debugs d) \<and> isNum (seconds d))"

definition completeDay :: "DayData \<Rightarrow> bool" where
  "completeDay d =
     (projects d \<noteq> None \<and> saves d \<noteq> None
      \<and> (\<forall>p td. projectsOf (Some d) p = Some td \<longrightarrow> completeDetails td))"

definition completeStore :: "TrackerFile \<Rightarrow> bool" where
  "completeStore st = (\<forall>day d. lookupDay st day = Some d \<longrightarrow> completeDay d)"




section \<open>Two instances on one file\<close>

text \<open>
  Instance A has project \<open>X\<close> open and an older copy of \<open>Y\<close> in memory; the file
  was last written by another instance, with newer counters for \<open>Y\<close> and its own
  save counts.  \<open>quietManager\<close> is an instance with no session and no ledger for
  today (its last activity was the day before).
\<close>

definition entryX :: TrackerDetails where
  "entryX = \<lparr>branches = Some [''main''], tasks = Num 0, debugs = Num 0, seconds = Num 60\<rparr>"

definition entryY :: TrackerDetails where
  "entryY = \<lparr>branches = Some [''dev''], tasks = Num 2, debugs = Num 1, seconds = Num 300\<rparr>"

definition diskB :: TrackerFile where
  "diskB = \<lparr>version = ''v2'',
      days = Some [''3/11/2026'' \<mapsto>
        \<lparr>projects = Some [''X'' \<mapsto> entryX\<lparr>seconds := Num 50\<rparr>, ''Y'' \<mapsto> entryY],
         saves = Some [''.ts'' \<mapsto> Num 5]\<rparr>]\<rparr>"

definition managerA :: TimeManager where
  "managerA =
     \<lparr>store = \<lparr>version = ''v2'',
        days = Some [''3/11/2026'' \<mapsto>
          \<lparr>projects = Some [''X'' \<mapsto> entryX, ''Y'' \<mapsto> entryY\<lparr>seconds := Num 100\<rparr>],
           saves = Some [''.ts'' \<mapsto> Num 1]\<rparr>]\<rparr>,
      activeProjects = [(''X'', 1793699990000)]\<rparr>"

definition quietManager :: TimeManager where
  "quietManager =
     \<lparr>store = \<lparr>version = ''v2'',
        days = Some [''2/11/2026'' \<mapsto> \<lparr>projects = Some [''X'' \<mapsto> entryX], saves = Some Map.empty\<rparr>]\<rparr>,
      activeProjects = []\<rparr>"

section \<open>What the queries report\<close>

text \<open>The entry \<open>getStats(day).projects[p]\<close>, when \<open>getStats\<close> returns a ledger that has one.\<close>

definition reported :: "Date \<Rightarrow> TimeManager \<Rightarrow> string \<Rightarrow> string \<Rightarrow> TrackerDetails option" where
  "reported now tm day p =
     (case getStats now day tm of Inr (Some d) \<Rightarrow> projectsOf (Some d) p | _ \<Rightarrow> None)"

text \<open>The manager with the session of \<open>p\<close> removed.\<close>

definition withoutSession :: "string \<Rightarrow> TimeManager \<Rightarrow> TimeManager" where
  "withoutSession p tm = tm\<lparr>activeProjects := AList.delete p (activeProjects tm)\<rparr>"

text \<open>
  The value of project \<open>p\<close> for a day, in the words of the specification: the stored
  entry, and for today's entry of a project with a session the seconds raised by the
  time since the session start.  No stored ledger or no entry gives \<open>None\<close>.
\<close>

definition dayValue :: "Date \<Rightarrow> TimeManager \<Rightarrow> string \<Rightarrow> string \<Rightarrow> TrackerDetails option" where
  "dayValue now tm p day =
     (case lookupProject (store tm) day p of
        None \<Rightarrow> None
      | Some d \<Rightarrow>
          (case map_of (activeProjects tm) p of
             None \<Rightarrow> Some d
           | Some start \<Rightarrow>
               if day = dateString now 0
               then Some (d\<lparr>seconds := Num (num (seconds d) + secondsSize now start)\<rparr>)
               else Some d))"

definition secondsIn :: "TrackerDetails option \<Rightarrow> real" where
  "secondsIn v = (case v of None \<Rightarrow> 0 | Some d \<Rightarrow> num (seconds d))"

definition tasksIn :: "TrackerDetails option \<Rightarrow> real" where
  "tasksIn v = (case v of None \<Rightarrow> 0 | Some d \<Rightarrow> num (tasks d))"

definition debugsIn :: "TrackerDetails option \<Rightarrow> real" where
  "debugsIn v = (case v of None \<Rightarrow> 0 | Some d \<Rightarrow> num (debugs d))"

definition branchesIn :: "TrackerDetails option \<Rightarrow> string set" where
  "branchesIn v = (case v of None \<Rightarrow> {} | Some d \<Rightarrow> (case branches d of None \<Rightarrow> {} | Some bs \<Rightarrow> set bs))"

text \<open>
  A manager with two days of data for \<open>proj\<close> and a session for it begun ten
  seconds before \<open>clock0\<close>.
\<close>

definition historyManager :: TimeManager where
  "historyManager =
     \<lparr>store = \<lparr>version = ''v2'',
        days = Some [''3/11/2026'' \<mapsto>
            \<lparr>projects = Some [''proj'' \<mapsto>
               \<lparr>branches = Some [''main''], tasks = Num 1, debugs = Num 0, seconds = Num 60\<rparr>],
             saves = Some Map.empty\<rparr>,
          ''2/11/2026'' \<mapsto>
            \<lparr>projects = Some [''proj'' \<mapsto>
               \<lparr>branches = Some [''main'', ''dev''], tasks = Num 2, debugs = Num 3, seconds = Num 40\<rparr>],
             saves = Some Map.empty\<rparr>]\<rparr>,
      activeProjects = [(''proj'', 1793699990000)]\<rparr>"


text \<open>
  Every key of a ledger's \<open>projects\<close> that is the name of a member of
  \<open>Object.prototype\<close> has a session: the live adjustment of \<open>getStats\<close> then finds a
  \<open>Date\<close> under each key it looks up, or nothing.
\<close>

definition keysResolve :: "(string \<times> int) list \<Rightarrow> (string \<rightharpoonup> TrackerDetails) \<Rightarrow> bool" where
  "keysResolve active prj = (\<forall>k \<in> set prototypeNames. prj k \<noteq> None \<longrightarrow> map_of active k \<noteq> None)"

definition todayResolves :: "Date \<Rightarrow> TimeManager \<Rightarrow> bool" where
  "todayResolves now tm = keysResolve (activeProjects tm) (projectsOf (lookupDay (store tm) (dateString now 0)))"

section \<open>Lemmas on the library calls\<close>

lemma set_foldl_set_add: "set (foldl set_add acc xs) = set acc \<union> set xs"
  by (induction xs arbitrary: acc) (auto simp: set_add_def)

lemma distinct_foldl_set_add: "distinct acc \<Longrightarrow> distinct (foldl set_add acc xs)"
  by (induction xs arbitrary: acc) (auto simp: set_add_def)

lemma foldl_set_add_known: "set xs \<subseteq> set acc \<Longrightarrow> foldl set_add acc xs = acc"
  by (induction xs arbitrary: acc) (auto simp: set_add_def)

lemma foldl_set_add_distinct: "distinct (acc @ xs) \<Longrightarrow> foldl set_add acc xs = acc @ xs"
  by (induction xs arbitrary: acc) (auto simp: set_add_def)

lemma set_newSet: "set (newSet xs) = set xs"
  by (simp add: newSet_def set_foldl_set_add)

lemma distinct_newSet: "distinct (newSet xs)"
  by (simp add: newSet_def distinct_foldl_set_add)

lemma newSet_distinct: "distinct xs \<Longrightarrow> newSet xs = xs"
  using foldl_set_add_distinct [of "[]" xs] by (simp add: newSet_def)

lemma newSet_append: "newSet (xs @ ys) = foldl set_add (newSet xs) ys"
  by (simp add: newSet_def)

lemma newSet_absorb: "distinct xs \<Longrightarrow> set ys \<subseteq> set xs \<Longrightarrow> newSet (xs @ ys) = xs"
  by (simp add: newSet_append newSet_distinct foldl_set_add_known)

lemma count_list_distinct: "distinct xs \<Longrightarrow> count_list xs x = (if x \<in> set xs then 1 else 0)"
  by (induction xs) auto

section \<open>The example clock\<close>

lemma dateString_clock0: "dateString clock0 0 = ''3/11/2026''"
  by (simp add: dateString_def clock0_def decimal.simps digit_def decimalInt_def)

section \<open>Lemmas on property reads\<close>

lemma getProperty_Own: "obj k = Some v \<Longrightarrow> getProperty obj k = Own v"
  by (simp add: getProperty_def)

lemma getProperty_Missing: "obj k = None \<Longrightarrow> k \<notin> set prototypeNames \<Longrightarrow> getProperty obj k = Missing"
  by (simp add: getProperty_def)

lemma getProperty_Inherited: "obj k = None \<Longrightarrow> k \<in> set prototypeNames \<Longrightarrow> getProperty obj k = Inherited"
  by (simp add: getProperty_def)

lemma getProperty_Inherited_iff: "getProperty obj k = Inherited \<longleftrightarrow> obj k = None \<and> k \<in> set prototypeNames"
  by (simp add: getProperty_def split: option.splits)

lemma getProperty_Missing_iff: "getProperty obj k = Missing \<longleftrightarrow> obj k = None \<and> k \<notin> set prototypeNames"
  by (simp add: getProperty_def split: option.splits)

lemma getProperty_Own_iff: "getProperty obj k = Own v \<longleftrightarrow> obj k = Some v"
  by (simp add: getProperty_def split: option.splits)

lemma empty_not_prototypeName: "[] \<notin> set prototypeNames"
  by (simp add: prototypeNames_def)

lemma prototypeNames_no_slash: "n \<in> set prototypeNames \<Longrightarrow> CHR ''/'' \<notin> set n"
  by (auto simp: prototypeNames_def)

lemma slash_in_dateString: "CHR ''/'' \<in> set (dateString now i)"
  by (cases "setDateBack i (getFullYear now, getMonth now, getDate now)") (simp add: dateString_def)

lemma dateString_not_prototypeName: "dateString now i \<notin> set prototypeNames"
  using prototypeNames_no_slash slash_in_dateString by blast

lemma dateString_not_proto [simp]: "dateString now i \<noteq> ''__proto__''"
  using dateString_not_prototypeName [of now i] by (auto simp: prototypeNames_def)

lemma getProperty_dateString:
  "getProperty ds (dateString now i) = (case ds (dateString now i) of None \<Rightarrow> Missing | Some d \<Rightarrow> Own d)"
  by (simp add: getProperty_def dateString_not_prototypeName split: option.splits)

lemma stateOf_simps [simp]: "stateOf (Done s) = s" "stateOf (Thrown e s) = s" "stateOf (Outside s) = s"
  by (simp_all add: stateOf_def)

section \<open>Lemmas on normalisation and \<open>updateDetails\<close>\<close>

lemma fixProject_own: "prj i = Some d \<Longrightarrow> fixProject i prj = Some (prj(i \<mapsto> fixDetails d))"
  by (simp add: fixProject_def getProperty_Own)

lemma fixProject_missing:
  "prj i = None \<Longrightarrow> i \<notin> set prototypeNames \<Longrightarrow> fixProject i prj = Some (prj(i \<mapsto> freshDetails))"
  by (simp add: fixProject_def getProperty_Missing)

lemma fixProject_inherited: "prj i = None \<Longrightarrow> i \<in> set prototypeNames \<Longrightarrow> fixProject i prj = None"
  by (simp add: fixProject_def getProperty_Inherited)

lemma validateDay_id:
  "i \<noteq> [] \<Longrightarrow> validateDay day (Some i) all =
     (case fixProject i (projectsOf day) of
        None \<Rightarrow> Outside \<lparr>projects = Some (projectsOf day), saves = Some (savesOf day)\<rparr>
      | Some fixed \<Rightarrow> Done \<lparr>projects = Some fixed, saves = Some (savesOf day)\<rparr>)"
  by (simp add: validateDay_def projectsOf_def savesOf_def Let_def split: option.splits)

lemma validateDay_empty_id:
  "validateDay day (Some []) False = Done \<lparr>projects = Some (projectsOf day), saves = Some (savesOf day)\<rparr>"
  by (simp add: validateDay_def projectsOf_def savesOf_def Let_def split: option.splits)



lemma validateDaySchema_today:
  "days st = Some ds \<Longrightarrow> validateDaySchema (dateString now i) pid all st =
     (case validateDay (ds (dateString now i)) pid all of
        Done d \<Rightarrow> Done (st\<lparr>days := Some (ds(dateString now i \<mapsto> d))\<rparr>)
      | Thrown e d \<Rightarrow> Thrown e (st\<lparr>days := Some (ds(dateString now i \<mapsto> d))\<rparr>)
      | Outside d \<Rightarrow> Outside (st\<lparr>days := Some (ds(dateString now i \<mapsto> d))\<rparr>))"
  by (simp add: validateDaySchema_def getProperty_dateString split: option.splits)

lemma updateDetails_nodays:
  "days st = None \<Longrightarrow> updateDetails now p det st = Thrown TypeError st"
  by (simp add: updateDetails_def validateDaySchema_def)

lemma entersLedger_fixProject:
  assumes "days st = Some ds" "entersLedger st day p"
  shows "fixProject p (projectsOf (ds day)) = Some ((projectsOf (ds day))(p \<mapsto> entryFor st day p))"
proof (cases "projectsOf (ds day) p")
  case None
  then have "lookupProject st day p = None"
    using assms(1) by (simp add: lookupProject_def lookupDay_def)
  with assms(2) have "p \<notin> set prototypeNames" by (simp add: entersLedger_def)
  with None show ?thesis
    using \<open>lookupProject st day p = None\<close> by (simp add: fixProject_missing entryFor_def)
next
  case (Some d)
  then have "lookupProject st day p = Some d"
    using assms(1) by (simp add: lookupProject_def lookupDay_def)
  with Some show ?thesis by (simp add: fixProject_own entryFor_def)
qed

lemma updateDetails_named:
  assumes "days st = Some ds" "entersLedger st (dateString now 0) p"
  shows "updateDetails now p det st =
     Done (st\<lparr>days := Some (ds(dateString now 0 \<mapsto>
        \<lparr>projects = Some ((projectsOf (ds (dateString now 0)))(p \<mapsto> applyDetails (entryFor st (dateString now 0) p) det)),
         saves = Some (savesOf (ds (dateString now 0)))\<rparr>))\<rparr>)"
proof -
  have p: "p \<noteq> []" using assms(2) by (simp add: entersLedger_def)
  show ?thesis
    using assms(1) p
    by (simp add: updateDetails_def validateDaySchema_today validateDay_id
        entersLedger_fixProject [OF assms] getProperty_Own Let_def)
qed

lemma updateDetails_outside:
  assumes "days st = Some ds" "p \<noteq> []" "p \<in> set prototypeNames"
    and "lookupProject st (dateString now 0) p = None"
  shows "updateDetails now p det st =
     Outside (st\<lparr>days := Some (ds(dateString now 0 \<mapsto>
        \<lparr>projects = Some (projectsOf (ds (dateString now 0))),
         saves = Some (savesOf (ds (dateString now 0)))\<rparr>))\<rparr>)"
proof -
  have "projectsOf (ds (dateString now 0)) p = None"
    using assms(1,4) by (simp add: lookupProject_def lookupDay_def)
  then have "fixProject p (projectsOf (ds (dateString now 0))) = None"
    using assms(3) by (rule fixProject_inherited)
  then show ?thesis
    using assms(1,2) by (simp add: updateDetails_def validateDaySchema_today validateDay_id Let_def)
qed

lemma updateDetails_unnamed:
  assumes "days st = Some ds"
  shows "updateDetails now [] det st =
     (let today = dateString now 0;
          st1 = st\<lparr>days := Some (ds(today \<mapsto> \<lparr>projects = Some (projectsOf (ds today)), saves = Some (savesOf (ds today))\<rparr>))\<rparr>
      in case projectsOf (ds today) [] of
           None \<Rightarrow> if det = noDetails then Done st1 else Thrown TypeError st1
         | Some e \<Rightarrow> Done (st\<lparr>days := Some (ds(today \<mapsto>
               \<lparr>projects = Some ((projectsOf (ds today))([] \<mapsto> applyDetails e det)), saves = Some (savesOf (ds today))\<rparr>))\<rparr>))"
  using assms
  by (simp add: updateDetails_def validateDaySchema_today validateDay_empty_id Let_def getProperty_def
      empty_not_prototypeName split: option.splits)

lemma lookupProject_updateDetails:
  assumes "days st = Some ds"
  shows "lookupProject (stateOf (updateDetails now p det st)) day q =
     (if day = dateString now 0 \<and> q = p
      then (if entersLedger st day p then Some (applyDetails (entryFor st day p) det)
            else map_option (\<lambda>d. applyDetails d det) (lookupProject st day p))
      else lookupProject st day q)"
proof -
  consider (unnamed) "p = []" | (named) "entersLedger st (dateString now 0) p"
    | (inherited) "p \<noteq> []" "p \<in> set prototypeNames" "lookupProject st (dateString now 0) p = None"
    by (auto simp: entersLedger_def)
  then show ?thesis
  proof cases
    case unnamed
    then show ?thesis using assms
      by (auto simp: updateDetails_unnamed Let_def lookupProject_def lookupDay_def projectsOf_def
          entersLedger_def split: option.splits)
  next
    case named
    then show ?thesis using assms
      by (auto simp: updateDetails_named lookupProject_def lookupDay_def projectsOf_def
          split: option.splits)
  next
    case inherited
    then have "\<not> entersLedger st (dateString now 0) p" by (simp add: entersLedger_def)
    with inherited show ?thesis using assms
      by (auto simp: updateDetails_outside lookupProject_def lookupDay_def projectsOf_def
          split: option.splits)
  qed
qed

lemma lookupSave_updateDetails:
  "lookupSave (stateOf (updateDetails now p det st)) day ext = lookupSave st day ext"
proof (cases "days st")
  case None
  then show ?thesis by (simp add: updateDetails_nodays)
next
  case (Some ds)
  consider (unnamed) "p = []" | (named) "entersLedger st (dateString now 0) p"
    | (inherited) "p \<noteq> []" "p \<in> set prototypeNames" "lookupProject st (dateString now 0) p = None"
    by (auto simp: entersLedger_def)
  then show ?thesis
  proof cases
    case unnamed
    then show ?thesis using Some
      by (auto simp: updateDetails_unnamed Let_def lookupSave_def lookupDay_def savesOf_def
          split: option.splits)
  next
    case named
    then show ?thesis using Some
      by (auto simp: updateDetails_named lookupSave_def lookupDay_def savesOf_def
          split: option.splits)
  next
    case inherited
    then show ?thesis using Some
      by (auto simp: updateDetails_outside lookupSave_def lookupDay_def savesOf_def
          split: option.splits)
  qed
qed

lemma stateOf_onStore: "stateOf (onStore f tm) = tm\<lparr>store := stateOf (f (store tm))\<rparr>"
  by (simp add: onStore_def split: outcome.splits)

lemma onStore_Done_iff: "onStore f tm = Done t \<longleftrightarrow> (\<exists>st. f (store tm) = Done st \<and> t = tm\<lparr>store := st\<rparr>)"
  by (auto simp: onStore_def split: outcome.splits)

lemma updateDetails_Done_named:
  "days st \<noteq> None \<Longrightarrow> entersLedger st (dateString now 0) p \<Longrightarrow> \<exists>st1. updateDetails now p det st = Done st1"
  by (auto simp: updateDetails_named)

lemma entersLedger_ordinary: "p \<noteq> [] \<Longrightarrow> p \<notin> set prototypeNames \<Longrightarrow> entersLedger st day p"
  by (simp add: entersLedger_def)

lemma fixDetails_idem: "fixDetails (fixDetails d) = fixDetails d"
  by (simp add: fixDetails_def split: option.splits)

lemma fixDetails_fresh: "fixDetails freshDetails = freshDetails"
  by (simp add: fixDetails_def freshDetails_def truthy_def)

lemma fixDetails_entryFor: "fixDetails (entryFor st day p) = entryFor st day p"
  by (simp add: entryFor_def fixDetails_idem fixDetails_fresh split: option.splits)

lemma applyDetails_branch_idem:
  "applyDetails (applyDetails e (branchDelta b)) (branchDelta b) = applyDetails e (branchDelta b)"
  by (simp add: applyDetails_def branchDelta_def noDetails_def newSet_absorb distinct_newSet set_newSet)

lemma fixDetails_applyDetails_branch:
  "fixDetails e = e \<Longrightarrow> fixDetails (applyDetails e (branchDelta b)) = applyDetails e (branchDelta b)"
  by (cases e) (auto simp: applyDetails_def branchDelta_def noDetails_def fixDetails_def
      split: if_splits option.splits)

lemma branchDelta_not_empty: "branchDelta b \<noteq> noDetails"
  by (simp add: branchDelta_def noDetails_def)

lemma updateDetails_branch_twice:
  assumes "updateDetails now p (branchDelta b) st = Done st1"
    and "dateString now' 0 = dateString now 0"
  shows "updateDetails now' p (branchDelta b) st1 = Done st1"
proof (cases "days st")
  case None
  then show ?thesis using assms by (simp add: updateDetails_nodays)
next
  case (Some ds)
  let ?t = "dateString now 0"
  consider (unnamed) "p = []" | (named) "entersLedger st ?t p"
    | (inherited) "p \<noteq> []" "p \<in> set prototypeNames" "lookupProject st ?t p = None"
    by (auto simp: entersLedger_def)
  then show ?thesis
  proof cases
    case named
    let ?e = "applyDetails (entryFor st ?t p) (branchDelta b)"
    let ?day = "\<lparr>projects = Some ((projectsOf (ds ?t))(p \<mapsto> ?e)), saves = Some (savesOf (ds ?t))\<rparr>"
    have st1: "st1 = st\<lparr>days := Some (ds(?t \<mapsto> ?day))\<rparr>"
      using assms(1) Some named by (simp add: updateDetails_named)
    have l1: "lookupProject st1 ?t p = Some ?e"
      by (simp add: st1 lookupProject_def lookupDay_def projectsOf_def)
    then have e1: "entryFor st1 ?t p = ?e"
      using fixDetails_applyDetails_branch [OF fixDetails_entryFor, of st ?t p b]
      by (simp add: entryFor_def)
    have n1: "entersLedger st1 (dateString now' 0) p"
      using named l1 assms(2) by (simp add: entersLedger_def)
    have "updateDetails now' p (branchDelta b) st1 =
        Done (st1\<lparr>days := Some ((ds(?t \<mapsto> ?day))(?t \<mapsto>
          \<lparr>projects = Some ((projectsOf ((ds(?t \<mapsto> ?day)) ?t))(p \<mapsto> applyDetails (entryFor st1 ?t p) (branchDelta b))),
           saves = Some (savesOf ((ds(?t \<mapsto> ?day)) ?t))\<rparr>))\<rparr>)"
      using n1 assms(2) by (subst updateDetails_named [where ds = "ds(?t \<mapsto> ?day)"]) (simp_all add: st1)
    also have "\<dots> = Done st1"
      unfolding e1 applyDetails_branch_idem by (simp add: projectsOf_def savesOf_def st1)
    finally show ?thesis .
  next
    case unnamed
    obtain e where e: "projectsOf (ds ?t) [] = Some e"
      using assms(1) Some unnamed branchDelta_not_empty
      by (cases "projectsOf (ds ?t) []") (auto simp: updateDetails_unnamed Let_def)
    let ?e = "applyDetails e (branchDelta b)"
    let ?day = "\<lparr>projects = Some ((projectsOf (ds ?t))([] \<mapsto> ?e)), saves = Some (savesOf (ds ?t))\<rparr>"
    have st1: "st1 = st\<lparr>days := Some (ds(?t \<mapsto> ?day))\<rparr>"
      using assms(1) Some unnamed e by (simp add: updateDetails_unnamed Let_def)
    have "days st1 = Some (ds(?t \<mapsto> ?day))" by (simp add: st1)
    from updateDetails_unnamed [OF this, of now' "branchDelta b"]
    show ?thesis using unnamed assms(2)
      by (simp add: Let_def projectsOf_def savesOf_def applyDetails_branch_idem st1)
  next
    case inherited
    with assms(1) Some show ?thesis by (simp add: updateDetails_outside)
  qed
qed

lemma addBranch_alt: "addBranch now p b = onStore (updateDetails now p (branchDelta b))"
  by (simp add: addBranch_def branchDelta_def)

lemma branchesOf_applyDetails_branch:
  "(case branches (applyDetails e (branchDelta b)) of None \<Rightarrow> [] | Some bs \<Rightarrow> bs) =
     newSet ((case branches e of None \<Rightarrow> [] | Some bs \<Rightarrow> bs) @ [b])"
  by (simp add: applyDetails_def branchDelta_def noDetails_def)

lemma branchesOf_addBranch:
  assumes "days (store tm) \<noteq> None"
  shows "branchesOf (store (stateOf (addBranch now p b tm))) day q =
     (if day = dateString now 0 \<and> q = p
      then (if entersLedger (store tm) day p
            then newSet ((case branches (entryFor (store tm) day p) of None \<Rightarrow> [] | Some bs \<Rightarrow> bs) @ [b])
            else (case lookupProject (store tm) day p of None \<Rightarrow> []
                  | Some d \<Rightarrow> newSet ((case branches d of None \<Rightarrow> [] | Some bs \<Rightarrow> bs) @ [b])))
      else branchesOf (store tm) day q)"
proof -
  obtain ds where ds: "days (store tm) = Some ds" using assms by auto
  show ?thesis
    unfolding branchesOf_def addBranch_alt stateOf_onStore
    by (simp add: lookupProject_updateDetails [OF ds] branchesOf_applyDetails_branch split: option.splits)
qed

lemma addBranch_nodays: "days (store tm) = None \<Longrightarrow> stateOf (addBranch now p b tm) = tm"
  by (simp add: addBranch_alt stateOf_onStore updateDetails_nodays)

lemma branchesDistinct_addBranch:
  assumes "branchesDistinct (store tm)"
  shows "branchesDistinct (store (stateOf (addBranch now p b tm)))"
proof (cases "days (store tm)")
  case None
  then show ?thesis using assms by (simp add: addBranch_nodays)
next
  case (Some ds)
  then have "days (store tm) \<noteq> None" by simp
  from branchesOf_addBranch [OF this] assms show ?thesis
    by (auto simp: branchesDistinct_def distinct_newSet split: option.splits)
qed

lemma branchesDistinct_addBranchCalls:
  "branchesDistinct (store tm) \<Longrightarrow> branchesDistinct (store (addBranchCalls calls tm))"
proof (induction calls tm rule: addBranchCalls.induct)
  case (1 tm)
  then show ?case by simp
next
  case (2 now ws branch calls tm)
  from branchesDistinct_addBranch [OF "2.prems", of now ws branch]
  show ?case
    by (cases "addBranch now ws branch tm") (simp_all add: "2.IH")
qed

lemma branches_entryFor:
  "(case branches (entryFor st day p) of None \<Rightarrow> [] | Some bs \<Rightarrow> bs) = branchesOf st day p"
  by (simp add: entryFor_def branchesOf_def freshDetails_def fixDetails_def split: option.splits)

lemma addBranch_Done_days: "addBranch now p b tm = Done tm1 \<Longrightarrow> days (store tm) \<noteq> None"
  by (cases "days (store tm)") (simp_all add: addBranch_alt onStore_def updateDetails_nodays)

lemma addBranch_Done_entry:
  assumes "addBranch now p b tm = Done tm1"
  shows "entersLedger (store tm) (dateString now 0) p
     \<or> (p = [] \<and> lookupProject (store tm) (dateString now 0) p \<noteq> None)"
proof -
  obtain ds where ds: "days (store tm) = Some ds"
    using addBranch_Done_days [OF assms] by auto
  from assms obtain st1 where st1: "updateDetails now p (branchDelta b) (store tm) = Done st1"
    by (auto simp: addBranch_alt onStore_Done_iff)
  consider (unnamed) "p = []" | (named) "entersLedger (store tm) (dateString now 0) p"
    | (inherited) "p \<noteq> []" "p \<in> set prototypeNames" "lookupProject (store tm) (dateString now 0) p = None"
    by (auto simp: entersLedger_def)
  then show ?thesis
  proof cases
    case unnamed
    with st1 ds branchDelta_not_empty show ?thesis
      by (cases "projectsOf (ds (dateString now 0)) []")
        (auto simp: updateDetails_unnamed Let_def lookupProject_def lookupDay_def)
  next
    case named
    then show ?thesis by simp
  next
    case inherited
    with st1 ds show ?thesis by (simp add: updateDetails_outside)
  qed
qed

lemma branchesOf_addBranch_Done:
  assumes "addBranch now p b tm = Done tm1"
  shows "branchesOf (store tm1) day q =
     (if day = dateString now 0 \<and> q = p then newSet (branchesOf (store tm) day p @ [b])
      else branchesOf (store tm) day q)"
proof -
  have tm1: "tm1 = stateOf (addBranch now p b tm)" using assms by simp
  note d = addBranch_Done_days [OF assms]
  from addBranch_Done_entry [OF assms] show ?thesis
    unfolding tm1 branchesOf_addBranch [OF d]
    by (auto simp: branches_entryFor entersLedger_def branchesOf_def split: option.splits)
qed

lemma count_newSet_snoc: "count_list (newSet (xs @ [b])) b = 1"
  by (simp add: count_list_distinct distinct_newSet set_newSet)
section \<open>Lemmas on settling\<close>

lemma seconds_entryFor: "seconds (entryFor st day p) = Num (recordedSeconds st day p)"
  by (auto simp: entryFor_def recordedSeconds_def freshDetails_def fixDetails_def truthy_def num_def
      split: option.splits jsnum.splits)

lemma applyDetails_seconds:
  "applyDetails e (secondsDelta v) = e\<lparr>seconds := js_add (seconds e) (Num v)\<rparr>"
  by (simp add: applyDetails_def secondsDelta_def noDetails_def)

lemma js_add_Num: "js_add (Num a) (Num b) = Num (a + b)"
  by (simp add: js_add_def toNumber_def)

lemma secondsDelta_not_empty: "secondsDelta v \<noteq> noDetails"
  by (simp add: secondsDelta_def noDetails_def)

lemma updateDaySeconds_inactive:
  "map_of (activeProjects tm) p = None \<Longrightarrow> p \<notin> set prototypeNames \<Longrightarrow> updateDaySeconds now p tm = Done tm"
  by (simp add: updateDaySeconds_def getProperty_Missing)

lemma updateDaySeconds_inherited:
  "map_of (activeProjects tm) p = None \<Longrightarrow> p \<in> set prototypeNames \<Longrightarrow>
   updateDaySeconds now p tm = Thrown TypeError tm"
  by (simp add: updateDaySeconds_def getProperty_Inherited)

lemma updateDaySeconds_active:
  "map_of (activeProjects tm) p = Some start \<Longrightarrow>
   updateDaySeconds now p tm =
     (case updateDetails now p (secondsDelta (settled now start)) (store tm) of
        Thrown e st \<Rightarrow> Thrown e (tm\<lparr>store := st\<rparr>)
      | Outside st \<Rightarrow> Outside (tm\<lparr>store := st\<rparr>)
      | Done st \<Rightarrow> Done (tm\<lparr>store := st,
            activeProjects := AList.update p (getTime now) (activeProjects tm)\<rparr>))"
  by (simp add: updateDaySeconds_def secondsDelta_def settled_def Let_def getProperty_Own)

lemma store_updateDaySeconds:
  "store (stateOf (updateDaySeconds now p tm)) =
     (case map_of (activeProjects tm) p of
        None \<Rightarrow> store tm
      | Some start \<Rightarrow> stateOf (updateDetails now p (secondsDelta (settled now start)) (store tm)))"
  by (cases "p \<in> set prototypeNames")
    (auto simp: updateDaySeconds_inactive updateDaySeconds_inherited updateDaySeconds_active
      split: option.splits outcome.splits)

lemma updateDaySeconds_Done:
  assumes "map_of (activeProjects tm) p = Some start" "days (store tm) \<noteq> None"
    "entersLedger (store tm) (dateString now 0) p"
  shows "updateDaySeconds now p tm =
     Done (tm\<lparr>store := stateOf (updateDetails now p (secondsDelta (settled now start)) (store tm)),
              activeProjects := AList.update p (getTime now) (activeProjects tm)\<rparr>)"
proof -
  obtain st where "updateDetails now p (secondsDelta (settled now start)) (store tm) = Done st"
    using updateDetails_Done_named [OF assms(2,3)] by blast
  then show ?thesis by (simp add: updateDaySeconds_active [OF assms(1)])
qed

lemma days_updateDetails:
  "(days (stateOf (updateDetails now p det st)) = None) = (days st = None)"
proof (cases "days st")
  case None
  then show ?thesis by (simp add: updateDetails_nodays)
next
  case (Some ds)
  consider (unnamed) "p = []" | (named) "entersLedger st (dateString now 0) p"
    | (inherited) "p \<noteq> []" "p \<in> set prototypeNames" "lookupProject st (dateString now 0) p = None"
    by (auto simp: entersLedger_def)
  then show ?thesis
    using Some
    by cases (auto simp: updateDetails_named updateDetails_unnamed updateDetails_outside Let_def
        split: option.splits)
qed

lemma lookupProject_settle:
  assumes "days st \<noteq> None" "entersLedger st (dateString now 0) p"
  shows "lookupProject (stateOf (updateDetails now p (secondsDelta v) st)) day q =
     (if day = dateString now 0 \<and> q = p
      then Some ((entryFor st day p)\<lparr>seconds := Num (recordedSeconds st day p + v)\<rparr>)
      else lookupProject st day q)"
proof -
  obtain ds where "days st = Some ds" using assms(1) by auto
  from lookupProject_updateDetails [OF this] assms(2) show ?thesis
    by (auto simp: applyDetails_seconds seconds_entryFor js_add_Num)
qed

lemma recordedSeconds_updateDetails_mono:
  assumes "0 \<le> v"
  shows "recordedSeconds st day q \<le> recordedSeconds (stateOf (updateDetails now p (secondsDelta v) st)) day q"
proof (cases "days st")
  case None
  then show ?thesis by (simp add: updateDetails_nodays)
next
  case (Some ds)
  have "num s \<le> num (js_add s (Num v))" for s
    using assms by (cases s) (simp_all add: js_add_def toNumber_def num_def)
  with lookupProject_updateDetails [OF Some, of now p "secondsDelta v" day q] assms show ?thesis
    by (auto simp: recordedSeconds_def applyDetails_seconds seconds_entryFor js_add_Num num_def
        split: option.splits)
qed

lemma secondsNonneg_updateDetails:
  assumes "0 \<le> v" "secondsNonneg st"
  shows "secondsNonneg (stateOf (updateDetails now p (secondsDelta v) st))"
proof (cases "days st")
  case None
  then show ?thesis using assms by (simp add: updateDetails_nodays)
next
  case (Some ds)
  have rec: "0 \<le> recordedSeconds st day q" for day q
    using assms(2) by (auto simp: secondsNonneg_def recordedSeconds_def num_def split: option.splits jsnum.splits)
  have add: "seconds d = Num r' \<Longrightarrow> 0 \<le> r' \<Longrightarrow> js_add (seconds d) (Num v) = Num r \<Longrightarrow> 0 \<le> r" for d r r'
    using assms(1) by (auto simp: js_add_def toNumber_def)
  show ?thesis
    unfolding secondsNonneg_def
  proof (intro allI impI)
    fix day q d r
    assume l: "lookupProject (stateOf (updateDetails now p (secondsDelta v) st)) day q = Some d"
      and s: "seconds d = Num r"
    show "0 \<le> r"
    proof (cases "day = dateString now 0 \<and> q = p")
      case False
      with l lookupProject_updateDetails [OF Some, of now p "secondsDelta v" day q] assms(2) s
      show ?thesis by (auto simp: secondsNonneg_def)
    next
      case True
      show ?thesis
      proof (cases "entersLedger st day p")
        case el: True
        with True l lookupProject_updateDetails [OF Some, of now p "secondsDelta v" day q] s
        have "r = recordedSeconds st day p + v"
          by (auto simp: applyDetails_seconds seconds_entryFor js_add_Num)
        with rec [of day p] assms(1) show ?thesis by simp
      next
        case p: False
        with True l lookupProject_updateDetails [OF Some, of now p "secondsDelta v" day q]
        obtain d0 where d0: "lookupProject st day p = Some d0"
          and d: "d = d0\<lparr>seconds := js_add (seconds d0) (Num v)\<rparr>"
          by (cases "lookupProject st day p") (auto simp: applyDetails_seconds)
        from d s have "js_add (seconds d0) (Num v) = Num r" by simp
        then show ?thesis
          using assms d0 by (cases "seconds d0") (auto simp: js_add_def toNumber_def secondsNonneg_def)
      qed
    qed
  qed
qed

lemma settled_nonneg: "0 \<le> settled now start"
  by (simp add: settled_def)

lemma recordedSeconds_updateDaySeconds_mono:
  "recordedSeconds (store tm) day q \<le> recordedSeconds (store (stateOf (updateDaySeconds now p tm))) day q"
  by (simp add: store_updateDaySeconds recordedSeconds_updateDetails_mono settled_nonneg split: option.splits)

lemma secondsNonneg_updateDaySeconds:
  "secondsNonneg (store tm) \<Longrightarrow> secondsNonneg (store (stateOf (updateDaySeconds now p tm)))"
  by (simp add: store_updateDaySeconds secondsNonneg_updateDetails settled_nonneg split: option.splits)

lemma store_endTracking:
  "store (stateOf (endTracking now p tm)) = store (stateOf (updateDaySeconds now p tm))"
  by (simp add: endTracking_def split: outcome.splits)

lemma settleEach_mono:
  "recordedSeconds (store tm) day q \<le> recordedSeconds (store (stateOf (settleEach now ks tm))) day q"
proof (induction ks arbitrary: tm)
  case Nil
  show ?case by simp
next
  case (Cons k ks)
  show ?case
  proof (cases "updateDaySeconds now k tm")
    case (Done t)
    have "recordedSeconds (store tm) day q \<le> recordedSeconds (store t) day q"
      using recordedSeconds_updateDaySeconds_mono [of tm day q now k] Done by simp
    also have "\<dots> \<le> recordedSeconds (store (stateOf (settleEach now ks t))) day q"
      by (rule Cons.IH)
    finally show ?thesis using Done by simp
  next
    case (Thrown e t)
    then show ?thesis
      using recordedSeconds_updateDaySeconds_mono [of tm day q now k] by simp
  next
    case (Outside t)
    then show ?thesis
      using recordedSeconds_updateDaySeconds_mono [of tm day q now k] by simp
  qed
qed

lemma settleEach_nonneg:
  "secondsNonneg (store tm) \<Longrightarrow> secondsNonneg (store (stateOf (settleEach now ks tm)))"
proof (induction ks arbitrary: tm)
  case Nil
  then show ?case by simp
next
  case (Cons k ks)
  from secondsNonneg_updateDaySeconds [OF Cons.prems, of now k]
  show ?case
    by (cases "updateDaySeconds now k tm") (simp_all add: Cons.IH)
qed
lemma updateDaySeconds_Done_ex:
  assumes "map_of (activeProjects tm) p = Some start" "days (store tm) \<noteq> None"
    "entersLedger (store tm) (dateString now 0) p"
  shows "\<exists>t. updateDaySeconds now p tm = Done t
     \<and> store t = stateOf (updateDetails now p (secondsDelta (settled now start)) (store tm))
     \<and> activeProjects t = AList.update p (getTime now) (activeProjects tm)"
  by (simp add: updateDaySeconds_Done [OF assms])

lemma entryFor_cong:
  "lookupProject st' day q = lookupProject st day q \<Longrightarrow> entryFor st' day q = entryFor st day q"
  by (simp add: entryFor_def)

lemma recordedSeconds_cong:
  "lookupProject st' day q = lookupProject st day q \<Longrightarrow> recordedSeconds st' day q = recordedSeconds st day q"
  by (simp add: recordedSeconds_def)

lemma entersLedger_cong:
  "lookupProject st' day q = lookupProject st day q \<Longrightarrow> entersLedger st' day q = entersLedger st day q"
  by (simp add: entersLedger_def)

lemma settleEach_exact:
  assumes "days (store tm) \<noteq> None"
    and "\<forall>k\<in>set ks. map_of (activeProjects tm) k \<noteq> None \<and> entersLedger (store tm) (dateString now 0) k"
    and "distinct ks"
  shows "\<exists>tm'. settleEach now ks tm = Done tm'
     \<and> (\<forall>q. map_of (activeProjects tm') q =
            (if q \<in> set ks then Some (getTime now) else map_of (activeProjects tm) q))
     \<and> (\<forall>day q. lookupProject (store tm') day q =
            (case map_of (activeProjects tm) q of
               None \<Rightarrow> lookupProject (store tm) day q
             | Some start \<Rightarrow>
                 if day = dateString now 0 \<and> q \<in> set ks
                 then Some ((entryFor (store tm) day q)\<lparr>seconds :=
                        Num (recordedSeconds (store tm) day q + settled now start)\<rparr>)
                 else lookupProject (store tm) day q))"
  using assms
proof (induction ks arbitrary: tm)
  case Nil
  then show ?case by (simp split: option.splits)
next
  case (Cons k ks)
  have k: "k \<notin> set ks" and ke: "entersLedger (store tm) (dateString now 0) k"
    and dks: "distinct ks"
    using Cons.prems by auto
  obtain start where Some: "map_of (activeProjects tm) k = Some start"
    using Cons.prems(2) by auto
  obtain t where step: "updateDaySeconds now k tm = Done t"
    and st: "store t = stateOf (updateDetails now k (secondsDelta (settled now start)) (store tm))"
    and act: "activeProjects t = AList.update k (getTime now) (activeProjects tm)"
    using updateDaySeconds_Done_ex [OF Some Cons.prems(1) ke] by blast
  have dt: "days (store t) \<noteq> None"
    using Cons.prems(1) by (simp add: st days_updateDetails)
  have lt: "lookupProject (store t) day q =
      (if day = dateString now 0 \<and> q = k
       then Some ((entryFor (store tm) day k)\<lparr>seconds := Num (recordedSeconds (store tm) day k + settled now start)\<rparr>)
       else lookupProject (store tm) day q)" for day q
    by (simp add: st lookupProject_settle [OF Cons.prems(1) ke])
  have at: "map_of (activeProjects t) q = (if q = k then Some (getTime now) else map_of (activeProjects tm) q)" for q
    by (simp add: act update_conv')
  have kst: "\<forall>q\<in>set ks. map_of (activeProjects t) q \<noteq> None \<and> entersLedger (store t) (dateString now 0) q"
  proof
    fix q
    assume q: "q \<in> set ks"
    with k have qk: "q \<noteq> k" by auto
    then have "lookupProject (store t) (dateString now 0) q = lookupProject (store tm) (dateString now 0) q"
      by (simp add: lt)
    from entersLedger_cong [OF this] Cons.prems(2) q qk
    show "map_of (activeProjects t) q \<noteq> None \<and> entersLedger (store t) (dateString now 0) q"
      by (simp add: at)
  qed
  from Cons.IH [OF dt kst dks] obtain tm' where
    r: "settleEach now ks t = Done tm'"
    and a: "\<And>q. map_of (activeProjects tm') q =
          (if q \<in> set ks then Some (getTime now) else map_of (activeProjects t) q)"
    and l: "\<And>day q. lookupProject (store tm') day q =
          (case map_of (activeProjects t) q of
             None \<Rightarrow> lookupProject (store t) day q
           | Some start \<Rightarrow>
               if day = dateString now 0 \<and> q \<in> set ks
               then Some ((entryFor (store t) day q)\<lparr>seconds :=
                      Num (recordedSeconds (store t) day q + settled now start)\<rparr>)
               else lookupProject (store t) day q)"
    by blast
  have same: "q \<noteq> k \<Longrightarrow> entryFor (store t) day q = entryFor (store tm) day q
      \<and> recordedSeconds (store t) day q = recordedSeconds (store tm) day q" for day q
    using lt [of day q] entryFor_cong [of "store t" day q "store tm"]
      recordedSeconds_cong [of "store t" day q "store tm"] by simp
  have "settleEach now (k # ks) tm = Done tm'" by (simp add: step r)
  moreover have "map_of (activeProjects tm') q =
          (if q \<in> set (k # ks) then Some (getTime now) else map_of (activeProjects tm) q)" for q
    by (auto simp: a at)
  moreover have "lookupProject (store tm') day q =
          (case map_of (activeProjects tm) q of
             None \<Rightarrow> lookupProject (store tm) day q
           | Some start \<Rightarrow>
               if day = dateString now 0 \<and> q \<in> set (k # ks)
               then Some ((entryFor (store tm) day q)\<lparr>seconds :=
                      Num (recordedSeconds (store tm) day q + settled now start)\<rparr>)
               else lookupProject (store tm) day q)" for day q
  proof (cases "q = k")
    case True
    then show ?thesis using Some k by (simp add: l at lt)
  next
    case False
    then show ?thesis using same [OF False] by (auto simp: l at lt split: option.splits)
  qed
  ultimately show ?case by blast
qed

lemma endTracking_Done_ex:
  assumes "map_of (activeProjects tm) p = Some start" "days (store tm) \<noteq> None"
    "entersLedger (store tm) (dateString now 0) p"
  shows "\<exists>t. endTracking now p tm = Done t
     \<and> store t = stateOf (updateDetails now p (secondsDelta (settled now start)) (store tm))
     \<and> activeProjects t = AList.delete p (activeProjects tm)"
  by (simp add: endTracking_def updateDaySeconds_Done [OF assms] delete_update_same)

lemma endTracking_inactive:
  assumes "map_of (activeProjects tm) p = None" "p \<notin> set prototypeNames"
  shows "endTracking now p tm = Done tm"
proof -
  have "p \<notin> fst ` set (activeProjects tm)"
    using assms(1) by (simp add: map_of_eq_None_iff)
  then show ?thesis
    by (simp add: endTracking_def updateDaySeconds_inactive [OF assms])
qed

lemma endTracking_inherited:
  "map_of (activeProjects tm) p = None \<Longrightarrow> p \<in> set prototypeNames \<Longrightarrow>
   endTracking now p tm = Thrown TypeError tm"
  by (simp add: endTracking_def updateDaySeconds_inherited)

lemma settled_forward: "start \<le> getTime now \<Longrightarrow> settled now start = real_of_int (getTime now - start) / 1000"
  by (simp add: settled_def secondsSize_def)

lemma settled_backward: "getTime now \<le> start \<Longrightarrow> settled now start = 0"
  by (simp add: settled_def secondsSize_def max_def)

lemma tracking0_active: "map_of (activeProjects tracking0) ''proj'' = Some 1793699990000"
  by (simp add: tracking0_def startTracking_def newTimeManager_def)

lemma tracking0_store: "store tracking0 = store newTimeManager"
  by (simp add: tracking0_def startTracking_def)

lemma newTimeManager_lookup: "lookupProject (store newTimeManager) day p = None"
  by (simp add: newTimeManager_def lookupProject_def lookupDay_def projectsOf_def)

lemma settled_clock0: "settled clock0 1793699990000 = 10"
  by (simp add: settled_def secondsSize_def clock0_def)

lemma map_of_Some_in_keys: "map_of al k = Some v \<Longrightarrow> k \<in> set (map fst al)"
  by (metis map_of_eq_None_iff option.distinct(1) set_map)

lemma tracking0_keys: "getTracking tracking0 = [''proj'']"
  by (simp add: getTracking_def tracking0_def startTracking_def newTimeManager_def)

lemma newTimeManager_nonneg: "secondsNonneg (store newTimeManager)"
  by (simp add: secondsNonneg_def newTimeManager_lookup)
section \<open>Lemmas on completeness\<close>

lemma isNum_simps [simp]:
  "isNum (Num r)" "\<not> isNum Undefined" "\<not> isNum Null" "\<not> isNum NaN"
  by (simp_all add: isNum_def)












lemma complete_onStore:
  "(\<And>st. completeStore st \<Longrightarrow> completeStore (stateOf (f st))) \<Longrightarrow> completeStore (store tm) \<Longrightarrow>
   completeStore (store (stateOf (onStore f tm)))"
  by (simp add: stateOf_onStore)










lemma complete_lookup:
  "completeStore st \<Longrightarrow> lookupProject st day p = Some d \<Longrightarrow> completeDetails d"
  by (cases "lookupDay st day")
    (auto simp: completeStore_def completeDay_def lookupProject_def projectsOf_def)



section \<open>Lemmas on the merge and on \<open>save\<close>\<close>

lemma mergeActive_Some:
  assumes "''__proto__'' \<notin> set ks"
  shows "mergeActive ks (Some m) (Some u) =
     Done (Some (\<lambda>pid. if pid \<in> set ks \<and> m pid \<noteq> None then m pid
                        else if pid \<in> set ks \<and> pid \<in> set prototypeNames then None
                        else u pid))"
  using assms
proof (induction ks arbitrary: u)
  case Nil
  show ?case by simp
next
  case (Cons k ks)
  then have k: "k \<noteq> ''__proto__''" and ks: "''__proto__'' \<notin> set ks" by auto
  let ?res = "\<lambda>ks u pid. if pid \<in> set ks \<and> m pid \<noteq> None then m pid
      else if pid \<in> set ks \<and> pid \<in> set prototypeNames then None else u pid"
  show ?case
  proof (cases "getProperty m k")
    case (Own d)
    then have mk: "m k = Some d" by (simp add: getProperty_Own_iff)
    then have "?res ks (u(k \<mapsto> d)) = ?res (k # ks) u"
      by (auto simp: fun_eq_iff)
    with Own k show ?thesis by (simp add: Cons.IH [OF ks])
  next
    case Inherited
    then have mk: "m k = None" "k \<in> set prototypeNames" by (simp_all add: getProperty_Inherited_iff)
    then have "?res ks (u(k := None)) = ?res (k # ks) u"
      by (auto simp: fun_eq_iff)
    with Inherited k show ?thesis by (simp add: Cons.IH [OF ks])
  next
    case Missing
    then have mk: "m k = None" "k \<notin> set prototypeNames" by (simp_all add: getProperty_Missing_iff)
    then have "?res ks u = ?res (k # ks) u"
      by (auto simp: fun_eq_iff)
    with Missing show ?thesis by (simp add: Cons.IH [OF ks])
  qed
qed

lemma mergeActive_no_mem: "mergeActive ks None upd = (if ks = [] then Done upd else Thrown TypeError upd)"
  by (cases ks) simp_all

lemma checkForChanges_result:
  "checkForChanges now f tm = Done t \<Longrightarrow>
     activeProjects t = activeProjects tm \<and> version (store t) = version (store tm)
     \<and> (days (store t) = None) = (days (store tm) = None)
     \<and> (\<forall>day. day \<noteq> dateString now 0 \<longrightarrow> lookupDay (store t) day = lookupDay (store tm) day)
     \<and> (\<forall>day. map_option saves (lookupDay (store t) day) = map_option saves (lookupDay (store tm) day))"
  by (auto simp: checkForChanges_def Let_def lookupDay_def split: disk.splits option.splits outcome.splits)

lemma checkForChanges_Thrown: "checkForChanges now f tm = Thrown e t \<Longrightarrow> t = tm"
  by (auto simp: checkForChanges_def Let_def split: disk.splits option.splits outcome.splits)

lemma checkForChanges_merge:
  assumes "lookupDay (store tm) (dateString now 0) = Some md" "projects md = Some mp"
    and "lookupDay ld (dateString now 0) = Some dd" "projects dd = Some dp"
    and "''__proto__'' \<notin> set (getTracking tm)"
  shows "\<exists>t. checkForChanges now (Content ld) tm = Done t
     \<and> (\<forall>pid. lookupProject (store t) (dateString now 0) pid =
           (if pid \<in> set (getTracking tm) \<and> mp pid \<noteq> None then mp pid
            else if pid \<in> set (getTracking tm) \<and> pid \<in> set prototypeNames then None
            else dp pid))"
proof -
  let ?t = "dateString now 0"
  let ?merged = "\<lambda>pid. if pid \<in> set (getTracking tm) \<and> mp pid \<noteq> None then mp pid
      else if pid \<in> set (getTracking tm) \<and> pid \<in> set prototypeNames then None else dp pid"
  have np: "''__proto__'' \<notin> set (map fst (activeProjects tm))"
    using assms(5) by (simp add: getTracking_def)
  obtain ds where ds: "days (store tm) = Some ds" "ds ?t = Some md"
    using assms(1) by (cases "days (store tm)") (simp_all add: lookupDay_def)
  obtain lds where lds: "days ld = Some lds" "lds ?t = Some dd"
    using assms(3) by (cases "days ld") (simp_all add: lookupDay_def)
  have r: "checkForChanges now (Content ld) tm =
      Done (tm\<lparr>store := (store tm)\<lparr>days := Some (ds(?t \<mapsto> md\<lparr>projects := Some ?merged\<rparr>))\<rparr>\<rparr>)"
    unfolding getTracking_def using ds lds assms(2,4)
    by (simp add: checkForChanges_def Let_def mergeActive_Some [OF np])
  have "\<forall>pid. lookupProject (store (tm\<lparr>store := (store tm)\<lparr>days := Some (ds(?t \<mapsto> md\<lparr>projects := Some ?merged\<rparr>))\<rparr>\<rparr>)) ?t pid
      = ?merged pid"
    by (simp add: lookupProject_def lookupDay_def projectsOf_def)
  with r show ?thesis by blast
qed

lemma checkForChanges_no_merge:
  assumes "days (store tm) \<noteq> None"
    and "lookupDay (store tm) (dateString now 0) = None \<or> lookupDay ld (dateString now 0) = None"
  shows "checkForChanges now (Content ld) tm = Done tm"
  using assms
  by (auto simp: checkForChanges_def Let_def lookupDay_def split: option.splits)

lemma lookupProject_jsonStore:
  "lookupProject (jsonStore st) day pid = map_option jsonDetails (lookupProject st day pid)"
  by (simp add: jsonStore_def jsonDay_def lookupProject_def lookupDay_def projectsOf_def
      split: option.splits)

lemma lookupSave_jsonStore:
  "map_option saves (lookupDay (jsonStore st) day) =
     map_option (\<lambda>d. map_option jsonSaves (saves d)) (lookupDay st day)"
  by (auto simp: jsonStore_def jsonDay_def lookupDay_def option.map_comp comp_def split: option.splits)

lemma json_clean_entry:
  assumes "jsonStore ld = ld" "lookupProject ld day pid = Some y"
  shows "jsonDetails y = y"
  using lookupProject_jsonStore [of ld day pid] assms by simp

lemma diskB_clean: "jsonStore diskB = diskB"
  by (auto simp: jsonStore_def diskB_def jsonDay_def jsonDetails_def jsonSaves_def jsonNum_def
      entryX_def entryY_def fun_eq_iff)

lemma managerA_today:
  "lookupDay (store managerA) (dateString clock0 0) =
     Some \<lparr>projects = Some [''X'' \<mapsto> entryX, ''Y'' \<mapsto> entryY\<lparr>seconds := Num 100\<rparr>],
           saves = Some [''.ts'' \<mapsto> Num 1]\<rparr>"
  by (simp add: managerA_def lookupDay_def dateString_clock0)

lemma diskB_today:
  "lookupDay diskB (dateString clock0 0) =
     Some \<lparr>projects = Some [''X'' \<mapsto> entryX\<lparr>seconds := Num 50\<rparr>, ''Y'' \<mapsto> entryY],
           saves = Some [''.ts'' \<mapsto> Num 5]\<rparr>"
  by (simp add: diskB_def lookupDay_def dateString_clock0)

lemma managerA_tracking: "getTracking managerA = [''X'']"
  by (simp add: managerA_def getTracking_def)

lemma quietManager_today: "lookupDay (store quietManager) (dateString clock0 0) = None"
  by (simp add: quietManager_def lookupDay_def dateString_clock0)

lemma jsonDetails_entryX: "jsonDetails entryX = entryX"
  by (simp add: jsonDetails_def entryX_def jsonNum_def)

lemma lookupSave_jsonStore_map:
  "lookupSave (jsonStore st) day = jsonSaves (lookupSave st day)"
  by (auto simp: jsonStore_def jsonDay_def lookupSave_def lookupDay_def savesOf_def jsonSaves_def
      fun_eq_iff split: option.splits)

lemma lookupSave_from_saves:
  "map_option saves (lookupDay st' day) = map_option saves (lookupDay st day) \<Longrightarrow>
   lookupSave st' day = lookupSave st day"
  by (auto simp: lookupSave_def savesOf_def fun_eq_iff split: option.splits)

lemma save_managerA_returns: "\<exists>tm' f'. save clock0 (Content diskB) managerA = Done (tm', f')"
proof -
  have "\<exists>t. checkForChanges clock0 (Content diskB) managerA = Done t
     \<and> (\<forall>pid. lookupProject (store t) (dateString clock0 0) pid =
           (if pid \<in> set (getTracking managerA)
               \<and> [''X'' \<mapsto> entryX, ''Y'' \<mapsto> entryY\<lparr>seconds := Num 100\<rparr>] pid \<noteq> None
            then [''X'' \<mapsto> entryX, ''Y'' \<mapsto> entryY\<lparr>seconds := Num 100\<rparr>] pid
            else if pid \<in> set (getTracking managerA) \<and> pid \<in> set prototypeNames then None
            else [''X'' \<mapsto> entryX\<lparr>seconds := Num 50\<rparr>, ''Y'' \<mapsto> entryY] pid))"
    by (rule checkForChanges_merge [OF managerA_today _ diskB_today])
      (simp_all only: DayData.select_convs, simp add: managerA_tracking)
  then obtain t where "checkForChanges clock0 (Content diskB) managerA = Done t"
    by (elim exE conjE)
  then show ?thesis by (simp add: save_def)
qed

section \<open>Lemmas on the queries\<close>

lemma getStats_nodays: "days (store tm) = None \<Longrightarrow> getStats now day tm = Inl TypeError"
  by (simp add: getStats_def)

lemma getStats_missing: "days (store tm) = Some ds \<Longrightarrow> getProperty ds day = Missing \<Longrightarrow> getStats now day tm = Inr None"
  by (simp add: getStats_def)

lemma getStats_other_day:
  "day \<noteq> dateString now 0 \<Longrightarrow> getStats now day tm =
     (case days (store tm) of None \<Rightarrow> Inl TypeError
      | Some ds \<Rightarrow>
          (case getProperty ds day of
             Missing \<Rightarrow> Inr None
           | Inherited \<Rightarrow> if day = ''__proto__'' then Inr (Some \<lparr>projects = None, saves = None\<rparr>)
                          else Inl SyntaxError
           | Own stored \<Rightarrow> Inr (Some (jsonDay stored))))"
  by (simp add: getStats_def Let_def split: option.splits property.splits)

lemma getStats_today:
  "getStats now (dateString now 0) tm =
     (case days (store tm) of None \<Rightarrow> Inl TypeError
      | Some ds \<Rightarrow>
          (case ds (dateString now 0) of
             None \<Rightarrow> Inr None
           | Some stored \<Rightarrow>
               (case projects (jsonDay stored) of
                  None \<Rightarrow> Inr (Some (jsonDay stored))
                | Some prj \<Rightarrow>
                    (case liveAdjust now (activeProjects tm) prj of
                       Inl e \<Rightarrow> Inl e
                     | Inr adjusted \<Rightarrow> Inr (Some ((jsonDay stored)\<lparr>projects := Some adjusted\<rparr>))))))"
proof (cases "days (store tm)")
  case None
  then show ?thesis by (simp add: getStats_def)
next
  case (Some ds)
  then show ?thesis
    by (cases "ds (dateString now 0)") (simp_all add: getStats_def Let_def getProperty_dateString)
qed

lemma getStats_dateString_other:
  "dateString now i \<noteq> dateString now 0 \<Longrightarrow> getStats now (dateString now i) tm =
     (case days (store tm) of None \<Rightarrow> Inl TypeError
      | Some ds \<Rightarrow> Inr (map_option jsonDay (ds (dateString now i))))"
proof (cases "days (store tm)")
  case None
  then show ?thesis by (simp add: getStats_def)
next
  case (Some ds)
  assume "dateString now i \<noteq> dateString now 0"
  with Some show ?thesis
    by (cases "ds (dateString now i)") (simp_all add: getStats_def Let_def getProperty_dateString)
qed

lemma getProperty_delete:
  "k \<noteq> p \<Longrightarrow> getProperty (map_of (AList.delete p al)) k = getProperty (map_of al) k"
  by (simp add: getProperty_def delete_conv)

lemma liveAdjust_without:
  assumes "prj p = None"
  shows "liveAdjust now (AList.delete p al) prj = liveAdjust now al prj"
proof -
  have same: "prj k \<noteq> None \<Longrightarrow> getProperty (map_of (AList.delete p al)) k = getProperty (map_of al) k" for k
    using assms by (intro getProperty_delete) auto
  have "(\<exists>k\<in>set prototypeNames. prj k \<noteq> None \<and> getProperty (map_of (AList.delete p al)) k = Inherited)
      = (\<exists>k\<in>set prototypeNames. prj k \<noteq> None \<and> getProperty (map_of al) k = Inherited)"
    using same by metis
  moreover have "(\<lambda>k. case prj k of None \<Rightarrow> None
        | Some d \<Rightarrow> (case getProperty (map_of (AList.delete p al)) k of
            Own s \<Rightarrow> Some (d\<lparr>seconds := js_add (seconds d) (Num (secondsSize now s))\<rparr>)
          | _ \<Rightarrow> Some d))
      = (\<lambda>k. case prj k of None \<Rightarrow> None
        | Some d \<Rightarrow> (case getProperty (map_of al) k of
            Own s \<Rightarrow> Some (d\<lparr>seconds := js_add (seconds d) (Num (secondsSize now s))\<rparr>)
          | _ \<Rightarrow> Some d))"
  proof
    fix k
    show "(case prj k of None \<Rightarrow> None
        | Some d \<Rightarrow> (case getProperty (map_of (AList.delete p al)) k of
            Own s \<Rightarrow> Some (d\<lparr>seconds := js_add (seconds d) (Num (secondsSize now s))\<rparr>)
          | _ \<Rightarrow> Some d))
      = (case prj k of None \<Rightarrow> None
        | Some d \<Rightarrow> (case getProperty (map_of al) k of
            Own s \<Rightarrow> Some (d\<lparr>seconds := js_add (seconds d) (Num (secondsSize now s))\<rparr>)
          | _ \<Rightarrow> Some d))"
      using same [of k] by (cases "prj k") simp_all
  qed
  ultimately show ?thesis
    unfolding liveAdjust_def by simp
qed

lemma liveAdjust_Inr_None: "liveAdjust now al prj = Inr adj \<Longrightarrow> adj p = None \<longleftrightarrow> prj p = None"
  by (auto simp: liveAdjust_def split: if_splits option.splits property.splits)

lemma liveAdjust_resolves:
  "keysResolve al prj \<Longrightarrow> liveAdjust now al prj =
     Inr (\<lambda>k. case prj k of None \<Rightarrow> None
          | Some d \<Rightarrow> (case map_of al k of
              None \<Rightarrow> Some d
            | Some s \<Rightarrow> Some (d\<lparr>seconds := js_add (seconds d) (Num (secondsSize now s))\<rparr>)))"
  by (auto simp: liveAdjust_def keysResolve_def getProperty_def fun_eq_iff split: option.splits)

lemma liveAdjust_throws:
  "\<not> keysResolve al prj \<Longrightarrow> liveAdjust now al prj = Inl TypeError"
  by (auto simp: liveAdjust_def keysResolve_def getProperty_Inherited_iff)

lemma projects_jsonDay_None:
  assumes "lookupProject (store tm) day p = None" "days (store tm) = Some ds" "ds day = Some stored"
    "projects (jsonDay stored) = Some prj"
  shows "prj p = None"
  using assms
  by (auto simp: lookupProject_def lookupDay_def projectsOf_def jsonDay_def split: option.splits)

lemma getStats_without:
  assumes "lookupProject (store tm) (dateString now 0) p = None"
  shows "getStats now day (withoutSession p tm) = getStats now day tm"
proof (cases "day = dateString now 0")
  case False
  then show ?thesis by (simp add: getStats_other_day withoutSession_def)
next
  case True
  show ?thesis
  proof (cases "days (store tm)")
    case None
    then show ?thesis by (simp add: getStats_nodays withoutSession_def)
  next
    case (Some ds)
    show ?thesis
    proof (cases "ds (dateString now 0)")
      case None
      with Some True show ?thesis by (simp add: getStats_today withoutSession_def)
    next
      case stored: (Some stored)
      show ?thesis
      proof (cases "projects (jsonDay stored)")
        case None
        with Some True stored show ?thesis by (simp add: getStats_today withoutSession_def)
      next
        case prj: (Some prj)
        from projects_jsonDay_None [OF assms Some stored prj]
        have "liveAdjust now (AList.delete p (activeProjects tm)) prj = liveAdjust now (activeProjects tm) prj"
          by (rule liveAdjust_without)
        with Some True stored prj show ?thesis by (simp add: getStats_today withoutSession_def)
      qed
    qed
  qed
qed

lemma addDayStats_cong:
  "(\<And>day. getStats now day tm' = getStats now day tm) \<Longrightarrow>
   addDayStats now tm' p ks stats = addDayStats now tm p ks stats"
  by (induction ks arbitrary: stats) (simp_all split: sum.splits option.splits property.splits)

lemma reported_today_None:
  assumes "lookupProject (store tm) (dateString now 0) p = None"
  shows "reported now tm (dateString now 0) p = None"
proof (cases "days (store tm)")
  case None
  then show ?thesis by (simp add: reported_def getStats_nodays)
next
  case (Some ds)
  show ?thesis
  proof (cases "ds (dateString now 0)")
    case None
    with Some show ?thesis by (simp add: reported_def getStats_today)
  next
    case stored: (Some stored)
    show ?thesis
    proof (cases "projects (jsonDay stored)")
      case None
      with Some stored show ?thesis by (simp add: reported_def getStats_today projectsOf_def)
    next
      case prj: (Some prj)
      note pn = projects_jsonDay_None [OF assms Some stored prj]
      show ?thesis
      proof (cases "liveAdjust now (activeProjects tm) prj")
        case (Inl e)
        with Some stored prj show ?thesis by (simp add: reported_def getStats_today)
      next
        case (Inr adj)
        with liveAdjust_Inr_None [OF Inr, of p] pn Some stored prj show ?thesis
          by (simp add: reported_def getStats_today projectsOf_def)
      qed
    qed
  qed
qed

lemma addDayStats_no_data:
  assumes "days (store tm) = Some ds" "\<forall>day\<in>set ks. getProperty ds day = Missing"
  shows "addDayStats now tm p ks stats = Inr stats"
  using assms(2)
proof (induction ks)
  case Nil
  show ?case by simp
next
  case (Cons k ks)
  then have "getStats now k tm = Inr None"
    using assms(1) by (simp add: getStats_missing)
  with Cons show ?case by simp
qed

lemma tracking0_period: "getStatsForPeriod clock0 keys ''proj'' 7 tracking0 = Inr freshDetails"
  unfolding getStatsForPeriod_def
  by (rule addDayStats_no_data [where ds = Map.empty])
    (auto simp: tracking0_store newTimeManager_def getDays_def getProperty_dateString)

lemma jsonNum_isNum: "isNum v \<Longrightarrow> jsonNum v = v"
  by (cases v) (simp_all add: jsonNum_def)

lemma jsonDetails_complete: "completeDetails d \<Longrightarrow> jsonDetails d = d"
  by (simp add: completeDetails_def jsonDetails_def jsonNum_isNum)

lemma js_add_isNum: "isNum v \<Longrightarrow> js_add (Num a) v = Num (a + num v)"
  by (cases v) (simp_all add: js_add_def toNumber_def num_def)

lemma projectsOf_jsonDay_complete:
  assumes "completeDay stored"
  shows "\<exists>sp. projects stored = Some sp \<and> projects (jsonDay stored) = Some sp"
proof -
  from assms obtain sp where sp: "projects stored = Some sp"
    and c: "\<And>q td. sp q = Some td \<Longrightarrow> completeDetails td"
    by (auto simp: completeDay_def projectsOf_def)
  have "(\<lambda>pid. map_option jsonDetails (sp pid)) = sp"
  proof
    fix pid
    show "map_option jsonDetails (sp pid) = sp pid"
      using c [of pid] by (cases "sp pid") (simp_all add: jsonDetails_complete)
  qed
  then show ?thesis by (simp add: jsonDay_def sp)
qed

lemma adjusted_complete:
  assumes "\<And>td. sp p = Some td \<Longrightarrow> completeDetails td"
  shows "(case sp p of None \<Rightarrow> None
          | Some d \<Rightarrow> (case map_of al p of
              None \<Rightarrow> Some d
            | Some s \<Rightarrow> Some (d\<lparr>seconds := js_add (seconds d) (Num (secondsSize now s))\<rparr>))) =
     (case sp p of None \<Rightarrow> None
      | Some d \<Rightarrow> (case map_of al p of None \<Rightarrow> Some d
          | Some start \<Rightarrow> Some (d\<lparr>seconds := Num (num (seconds d) + secondsSize now start)\<rparr>)))"
proof (cases "sp p")
  case None
  then show ?thesis by simp
next
  case (Some d)
  then have "isNum (seconds d)" using assms by (simp add: completeDetails_def)
  then have "js_add (seconds d) (Num e) = Num (num (seconds d) + e)" for e
    by (cases "seconds d") (simp_all add: js_add_def toNumber_def num_def)
  with Some show ?thesis by (simp split: option.splits)
qed

lemma getStats_complete:
  assumes "days (store tm) \<noteq> None" "completeStore (store tm)" "todayResolves now tm"
  shows "(lookupDay (store tm) (dateString now i) = None \<longrightarrow> getStats now (dateString now i) tm = Inr None)
     \<and> (lookupDay (store tm) (dateString now i) \<noteq> None \<longrightarrow>
          (\<exists>d prj. getStats now (dateString now i) tm = Inr (Some d) \<and> projects d = Some prj
             \<and> prj p = dayValue now tm p (dateString now i)))"
proof -
  let ?day = "dateString now i"
  obtain ds where ds: "days (store tm) = Some ds" using assms(1) by auto
  show ?thesis
  proof (cases "ds ?day")
    case None
    with ds show ?thesis by (simp add: lookupDay_def getStats_missing getProperty_dateString)
  next
    case (Some stored)
    then have ld: "lookupDay (store tm) ?day = Some stored" using ds by (simp add: lookupDay_def)
    with assms(2) have cd: "completeDay stored" by (simp add: completeStore_def)
    from projectsOf_jsonDay_complete [OF cd] obtain sp where
      sp: "projects stored = Some sp" and jp: "projects (jsonDay stored) = Some sp"
      by blast
    have c: "\<And>td. sp p = Some td \<Longrightarrow> completeDetails td"
      using cd sp by (simp add: completeDay_def projectsOf_def)
    have lp: "lookupProject (store tm) ?day p = sp p"
      by (simp add: lookupProject_def ld projectsOf_def sp)
    show ?thesis
    proof (cases "?day = dateString now 0")
      case True
      have "keysResolve (activeProjects tm) sp"
        using assms(3) ld sp True by (simp add: todayResolves_def projectsOf_def)
      note la = liveAdjust_resolves [OF this, of now]
      have "getStats now ?day tm = Inr (Some ((jsonDay stored)\<lparr>projects :=
          Some (\<lambda>k. case sp k of None \<Rightarrow> None
            | Some d \<Rightarrow> (case map_of (activeProjects tm) k of
                None \<Rightarrow> Some d
              | Some s \<Rightarrow> Some (d\<lparr>seconds := js_add (seconds d) (Num (secondsSize now s))\<rparr>)))\<rparr>))"
      proof -
        have "getStats now (dateString now 0) tm = Inr (Some ((jsonDay stored)\<lparr>projects :=
          Some (\<lambda>k. case sp k of None \<Rightarrow> None
            | Some d \<Rightarrow> (case map_of (activeProjects tm) k of
                None \<Rightarrow> Some d
              | Some s \<Rightarrow> Some (d\<lparr>seconds := js_add (seconds d) (Num (secondsSize now s))\<rparr>)))\<rparr>))"
          using ds Some jp la unfolding True by (simp add: getStats_today)
        then show ?thesis by (simp add: True)
      qed
      moreover have "(case sp p of None \<Rightarrow> None
            | Some d \<Rightarrow> (case map_of (activeProjects tm) p of
                None \<Rightarrow> Some d
              | Some s \<Rightarrow> Some (d\<lparr>seconds := js_add (seconds d) (Num (secondsSize now s))\<rparr>)))
          = dayValue now tm p ?day"
      proof -
        have "dayValue now tm p ?day =
            (case sp p of None \<Rightarrow> None
             | Some d \<Rightarrow> (case map_of (activeProjects tm) p of None \<Rightarrow> Some d
                 | Some start \<Rightarrow> Some (d\<lparr>seconds := Num (num (seconds d) + secondsSize now start)\<rparr>)))"
          using lp by (simp add: dayValue_def True split: option.splits)
        then show ?thesis
          by (simp only: adjusted_complete [of sp p, OF c])
      qed
      ultimately show ?thesis using ld by simp
    next
      case False
      have "getStats now ?day tm = Inr (Some (jsonDay stored))"
        using False ds Some by (simp add: getStats_dateString_other)
      moreover have "sp p = dayValue now tm p ?day"
        using False by (simp add: dayValue_def lp split: option.splits)
      ultimately show ?thesis using ld jp by simp
    qed
  qed
qed

lemma dayValue_no_day: "lookupDay (store tm) day = None \<Longrightarrow> dayValue now tm p day = None"
  by (simp add: dayValue_def lookupProject_def projectsOf_def)

lemma dayValue_complete:
  assumes "completeStore (store tm)" "dayValue now tm p day = Some e"
  shows "completeDetails e"
proof -
  from assms(2) obtain d where d: "lookupProject (store tm) day p = Some d"
    by (cases "lookupProject (store tm) day p") (simp_all add: dayValue_def)
  from complete_lookup [OF assms(1) d] have "completeDetails d" .
  with assms(2) d show ?thesis
    by (auto simp: dayValue_def completeDetails_def split: option.splits if_splits)
qed

lemma addDayStats_sum:
  assumes "days (store tm) \<noteq> None" "completeStore (store tm)" "todayResolves now tm"
    and "p \<notin> set prototypeNames" "distinct ab"
  shows "\<exists>bs. addDayStats now tm p (map (dateString now) is)
         \<lparr>branches = Some ab, tasks = Num t, debugs = Num g, seconds = Num s\<rparr> =
       Inr \<lparr>branches = Some bs,
            tasks = Num (t + (\<Sum>i\<leftarrow>is. tasksIn (dayValue now tm p (dateString now i)))),
            debugs = Num (g + (\<Sum>i\<leftarrow>is. debugsIn (dayValue now tm p (dateString now i)))),
            seconds = Num (s + (\<Sum>i\<leftarrow>is. secondsIn (dayValue now tm p (dateString now i))))\<rparr>
     \<and> distinct bs
     \<and> set bs = set ab \<union> (\<Union>i\<in>set is. branchesIn (dayValue now tm p (dateString now i)))"
  using assms(5)
proof (induction "is" arbitrary: ab t g s)
  case Nil
  then show ?case by simp
next
  case (Cons i "is")
  let ?k = "dateString now i"
  note gs = getStats_complete [OF assms(1,2,3), of i p]
  show ?case
  proof (cases "dayValue now tm p ?k")
    case None
    have skip: "addDayStats now tm p (?k # ks) stats = addDayStats now tm p ks stats" for stats ks
    proof (cases "lookupDay (store tm) ?k")
      case None
      with gs show ?thesis by simp
    next
      case (Some stored)
      with gs obtain d prj where "getStats now ?k tm = Inr (Some d)" "projects d = Some prj"
        "prj p = dayValue now tm p ?k"
        by auto
      then show ?thesis
        using \<open>dayValue now tm p ?k = None\<close> assms(4) by (simp add: getProperty_Missing)
    qed
    from Cons.IH [OF Cons.prems, of t g s] None show ?thesis
      by (simp only: list.map skip) (simp add: tasksIn_def debugsIn_def secondsIn_def branchesIn_def)
  next
    case (Some e)
    from dayValue_complete [OF assms(2) Some] obtain eb where
      eb: "branches e = Some eb" and nt: "isNum (tasks e)"
      and ng: "isNum (debugs e)" and ns: "isNum (seconds e)"
      by (auto simp: completeDetails_def)
    have "lookupDay (store tm) ?k \<noteq> None"
      using Some dayValue_no_day [of tm ?k now p] by auto
    with gs obtain d prj where g1: "getStats now ?k tm = Inr (Some d)" and g2: "projects d = Some prj"
      and g3: "prj p = Some e"
      using Some by auto
    have step: "addDayStats now tm p (?k # ks) \<lparr>branches = Some ab, tasks = Num t, debugs = Num g, seconds = Num s\<rparr> =
        addDayStats now tm p ks \<lparr>branches = Some (newSet (ab @ eb)), tasks = Num (t + num (tasks e)),
          debugs = Num (g + num (debugs e)), seconds = Num (s + num (seconds e))\<rparr>" for ks
      using nt ng ns getProperty_Own [of prj p e, OF g3] by (simp add: g1 g2 eb js_add_isNum)
    from Cons.IH [of "newSet (ab @ eb)" "t + num (tasks e)" "g + num (debugs e)" "s + num (seconds e)"]
    obtain bs where
      r: "addDayStats now tm p (map (dateString now) is) \<lparr>branches = Some (newSet (ab @ eb)), tasks = Num (t + num (tasks e)),
          debugs = Num (g + num (debugs e)), seconds = Num (s + num (seconds e))\<rparr> =
        Inr \<lparr>branches = Some bs,
            tasks = Num (t + num (tasks e) + (\<Sum>i\<leftarrow>is. tasksIn (dayValue now tm p (dateString now i)))),
            debugs = Num (g + num (debugs e) + (\<Sum>i\<leftarrow>is. debugsIn (dayValue now tm p (dateString now i)))),
            seconds = Num (s + num (seconds e) + (\<Sum>i\<leftarrow>is. secondsIn (dayValue now tm p (dateString now i))))\<rparr>"
      and db: "distinct bs"
      and sb: "set bs = set (newSet (ab @ eb)) \<union> (\<Union>i\<in>set is. branchesIn (dayValue now tm p (dateString now i)))"
      using distinct_newSet by blast
    have "set bs = set ab \<union> (\<Union>i\<in>set (i # is). branchesIn (dayValue now tm p (dateString now i)))"
      using sb by (auto simp: set_newSet Some branchesIn_def eb)
    with r db show ?thesis
      by (simp only: list.map step) (simp add: Some tasksIn_def debugsIn_def secondsIn_def add.assoc)
  qed
qed

lemma sum_list_upt: "(\<Sum>i\<leftarrow>[0..<n]. f i) = (\<Sum>i<n. f i)"
  by (simp add: interv_sum_list_conv_sum_set_nat atLeast0LessThan)

lemma union_upt: "(\<Union>i\<in>set [0..<n]. B i) = (\<Union>i<n. B i)"
  by auto

lemma dateString_clock0_1: "dateString clock0 (Suc 0) = ''2/11/2026''"
  by (simp add: dateString_def clock0_def decimal.simps digit_def decimalInt_def)

lemma historyManager_complete: "completeStore (store historyManager)"
  by (auto simp: completeStore_def lookupDay_def historyManager_def completeDay_def projectsOf_def
      completeDetails_def split: if_splits)

lemma secondsSize_clock0: "secondsSize clock0 1793699990000 = 10"
  by (simp add: secondsSize_def clock0_def)

lemma historyManager_today:
  "dayValue clock0 historyManager ''proj'' ''3/11/2026'' =
     Some \<lparr>branches = Some [''main''], tasks = Num 1, debugs = Num 0, seconds = Num 70\<rparr>"
  by (simp add: dayValue_def lookupProject_def lookupDay_def projectsOf_def historyManager_def
      dateString_clock0 num_def secondsSize_clock0)

lemma historyManager_yesterday:
  "dayValue clock0 historyManager ''proj'' ''2/11/2026'' =
     Some \<lparr>branches = Some [''main'', ''dev''], tasks = Num 2, debugs = Num 3, seconds = Num 40\<rparr>"
  by (simp add: dayValue_def lookupProject_def lookupDay_def projectsOf_def historyManager_def
      dateString_clock0)

section \<open>Lemmas for the claims\<close>

lemma newSet_snoc_distinct:
  "distinct xs \<Longrightarrow> newSet (xs @ [b]) = (if b \<in> set xs then xs else xs @ [b])"
  by (simp add: newSet_absorb newSet_distinct)

lemma js_add_Undefined: "js_add v Undefined = NaN"
  by (simp add: js_add_def toNumber_def split: option.splits)

lemma constructor_prototypeName: "''constructor'' \<in> set prototypeNames"
  by (simp add: prototypeNames_def)

lemma proj_ordinary: "''proj'' \<noteq> [] \<and> ''proj'' \<notin> set prototypeNames"
  by (simp add: prototypeNames_def)

lemma dayValue_no_entry: "lookupProject (store tm) day p = None \<Longrightarrow> dayValue now tm p day = None"
  by (simp add: dayValue_def)

lemma addDayStats_inherited:
  assumes "days (store tm) \<noteq> None" "completeStore (store tm)" "todayResolves now tm"
    and "p \<in> set prototypeNames"
  shows "\<forall>i\<in>set is. lookupProject (store tm) (dateString now i) p = None \<Longrightarrow>
     addDayStats now tm p (map (dateString now) is) stats =
       Inr (if \<exists>i\<in>set is. lookupDay (store tm) (dateString now i) \<noteq> None
            then \<lparr>branches = branches stats, tasks = NaN, debugs = NaN, seconds = NaN\<rparr>
            else stats)"
proof (induction "is" arbitrary: stats)
  case Nil
  show ?case by simp
next
  case (Cons i "is")
  let ?k = "dateString now i"
  note gs = getStats_complete [OF assms(1,2,3), of i p]
  have rest: "\<forall>i\<in>set is. lookupProject (store tm) (dateString now i) p = None"
    using Cons.prems by simp
  have none: "dayValue now tm p ?k = None"
    using Cons.prems by (simp add: dayValue_no_entry)
  show ?case
  proof (cases "lookupDay (store tm) ?k")
    case None
    with gs have "getStats now ?k tm = Inr None" by simp
    with None Cons.IH [OF rest, of stats] show ?thesis by simp
  next
    case (Some stored)
    with gs none obtain d prj where g1: "getStats now ?k tm = Inr (Some d)"
      and g2: "projects d = Some prj" and g3: "prj p = None"
      by auto
    from g3 assms(4) have g4: "getProperty prj p = Inherited"
      by (rule getProperty_Inherited)
    let ?stats = "\<lparr>branches = branches stats, tasks = NaN, debugs = NaN, seconds = NaN\<rparr>"
    have "addDayStats now tm p (map (dateString now) (i # is)) stats =
        addDayStats now tm p (map (dateString now) is) ?stats"
      by (simp add: g1 g2 g4 js_add_Undefined)
    also have "\<dots> = Inr ?stats"
      by (simp add: Cons.IH [OF rest, of ?stats])
    finally show ?thesis using Some by simp
  qed
qed

lemma getStats_today_throws:
  assumes "completeStore (store tm)" "\<not> todayResolves now tm"
  shows "getStats now (dateString now 0) tm = Inl TypeError"
proof -
  let ?t = "dateString now 0"
  from assms(2) obtain k where k: "projectsOf (lookupDay (store tm) ?t) k \<noteq> None"
    by (auto simp: todayResolves_def keysResolve_def)
  then obtain stored where ld: "lookupDay (store tm) ?t = Some stored"
    by (cases "lookupDay (store tm) ?t") (simp_all add: projectsOf_def)
  then obtain ds where ds: "days (store tm) = Some ds" "ds ?t = Some stored"
    by (cases "days (store tm)") (simp_all add: lookupDay_def)
  from assms(1) ld have "completeDay stored" by (simp add: completeStore_def)
  from projectsOf_jsonDay_complete [OF this] obtain sp where
    sp: "projects stored = Some sp" and jp: "projects (jsonDay stored) = Some sp"
    by blast
  have "\<not> keysResolve (activeProjects tm) sp"
    using assms(2) ld sp by (simp add: todayResolves_def projectsOf_def)
  then have "liveAdjust now (activeProjects tm) sp = Inl TypeError"
    by (rule liveAdjust_throws)
  with ds jp show ?thesis by (simp add: getStats_today)
qed

lemma upt_first: "0 < n \<Longrightarrow> [0..<n] = 0 # [Suc 0..<n]"
  by (simp add: upt_conv_Cons)

lemma historyManager_resolves: "todayResolves clock0 historyManager"
  by (simp add: todayResolves_def keysResolve_def historyManager_def lookupDay_def projectsOf_def
      dateString_clock0 prototypeNames_def)

lemma historyManager_no_constructor:
  "lookupProject (store historyManager) day ''constructor'' = None"
  by (simp add: lookupProject_def lookupDay_def projectsOf_def historyManager_def)

lemma historyManager_ledger: "lookupDay (store historyManager) (dateString clock0 0) \<noteq> None"
  by (simp add: lookupDay_def historyManager_def dateString_clock0)

section \<open>The claims\<close>

text \<open>
  C6.  \<open>addBranch(p, b)\<close> has set semantics.  The call returns for every project
  name that is not empty and not the name of a member of \<open>Object.prototype\<close>, on a
  store that has its \<open>days\<close>.  Whenever it returns, \<open>p\<close>'s branch collection for
  today is the collection before the call with \<open>b\<close> merged in through a \<open>Set\<close>: its
  elements are the earlier ones and \<open>b\<close>, \<open>b\<close> occurs exactly once, a collection
  without duplicates that already has \<open>b\<close> is left as it is and one that has not
  gets \<open>b\<close> at its end, no other collection changes, and a second call with the
  same \<open>b\<close> on the same day returns the very same state.  From a store whose branch
  collections are free of duplicates, any sequence of \<open>addBranch\<close> calls leaves
  every branch name at most once in every collection.
\<close>

theorem addBranch_set_semantics:
  "(days (store tm) \<noteq> None \<and> p \<noteq> [] \<and> p \<notin> set prototypeNames \<longrightarrow>
      (\<exists>tm1. addBranch now p b tm = Done tm1))
   \<and> (\<forall>tm1. addBranch now p b tm = Done tm1 \<longrightarrow>
         branchesOf (store tm1) (dateString now 0) p =
           newSet (branchesOf (store tm) (dateString now 0) p @ [b])
         \<and> set (branchesOf (store tm1) (dateString now 0) p) =
             insert b (set (branchesOf (store tm) (dateString now 0) p))
         \<and> count_list (branchesOf (store tm1) (dateString now 0) p) b = 1
         \<and> (distinct (branchesOf (store tm) (dateString now 0) p) \<longrightarrow>
              branchesOf (store tm1) (dateString now 0) p =
                (if b \<in> set (branchesOf (store tm) (dateString now 0) p)
                 then branchesOf (store tm) (dateString now 0) p
                 else branchesOf (store tm) (dateString now 0) p @ [b]))
         \<and> (\<forall>day q. \<not> (day = dateString now 0 \<and> q = p) \<longrightarrow>
               branchesOf (store tm1) day q = branchesOf (store tm) day q)
         \<and> (\<forall>now'. dateString now' 0 = dateString now 0 \<longrightarrow> addBranch now' p b tm1 = Done tm1))
   \<and> (branchesDistinct (store tm) \<longrightarrow>
        (\<forall>calls day q c. count_list (branchesOf (store (addBranchCalls calls tm)) day q) c \<le> 1))"
proof (intro conjI impI allI)
  assume "days (store tm) \<noteq> None \<and> p \<noteq> [] \<and> p \<notin> set prototypeNames"
  then obtain st1 where "updateDetails now p (branchDelta b) (store tm) = Done st1"
    using updateDetails_Done_named entersLedger_ordinary by blast
  then show "\<exists>tm1. addBranch now p b tm = Done tm1"
    by (simp add: addBranch_alt onStore_def)
next
  fix tm1
  assume ret: "addBranch now p b tm = Done tm1"
  note br = branchesOf_addBranch_Done [OF ret]
  show eq: "branchesOf (store tm1) (dateString now 0) p =
      newSet (branchesOf (store tm) (dateString now 0) p @ [b])"
    by (simp add: br)
  show "set (branchesOf (store tm1) (dateString now 0) p) =
      insert b (set (branchesOf (store tm) (dateString now 0) p))"
    by (simp add: eq set_newSet)
  show "count_list (branchesOf (store tm1) (dateString now 0) p) b = 1"
    by (simp add: eq count_newSet_snoc)
  show "branchesOf (store tm1) (dateString now 0) p =
      (if b \<in> set (branchesOf (store tm) (dateString now 0) p)
       then branchesOf (store tm) (dateString now 0) p
       else branchesOf (store tm) (dateString now 0) p @ [b])"
    if "distinct (branchesOf (store tm) (dateString now 0) p)"
    using that by (simp only: eq newSet_snoc_distinct)
  show "branchesOf (store tm1) day q = branchesOf (store tm) day q"
    if "\<not> (day = dateString now 0 \<and> q = p)" for day q
    using that by (auto simp: br)
  from ret obtain st1 where st1: "updateDetails now p (branchDelta b) (store tm) = Done st1"
    and tm1: "tm1 = tm\<lparr>store := st1\<rparr>"
    by (auto simp: addBranch_alt onStore_Done_iff)
  fix now'
  assume "dateString now' 0 = dateString now 0"
  from updateDetails_branch_twice [OF st1 this]
  show "addBranch now' p b tm1 = Done tm1"
    by (simp add: addBranch_alt onStore_def tm1)
next
  fix calls day q c
  assume "branchesDistinct (store tm)"
  then have "distinct (branchesOf (store (addBranchCalls calls tm)) day q)"
    using branchesDistinct_addBranchCalls by (simp add: branchesDistinct_def)
  then show "count_list (branchesOf (store (addBranchCalls calls tm)) day q) c \<le> 1"
    by (simp add: count_list_distinct)
qed

theorem addBranch_set_semantics_witness:
  "days (store newTimeManager) \<noteq> None \<and> ''proj'' \<noteq> [] \<and> ''proj'' \<notin> set prototypeNames
   \<and> (\<exists>tm1 tm2. addBranch clock0 ''proj'' ''main'' newTimeManager = Done tm1
        \<and> branchesOf (store tm1) (dateString clock0 0) ''proj'' = [''main'']
        \<and> addBranch clock0 ''proj'' ''main'' tm1 = Done tm1
        \<and> addBranch clock0 ''proj'' ''dev'' tm1 = Done tm2
        \<and> branchesOf (store tm2) (dateString clock0 0) ''proj'' = [''main'', ''dev''])
   \<and> branchesDistinct (store newTimeManager)
   \<and> count_list (branchesOf (store (addBranchCalls
          [(clock0, ''proj'', ''main''), (clock0, ''proj'', ''main'')] newTimeManager))
          (dateString clock0 0) ''proj'') ''main'' \<le> 1"
proof -
  let ?t = "dateString clock0 0"
  note main = addBranch_set_semantics [of newTimeManager "''proj''" clock0 "''main''"]
  have h1: "days (store newTimeManager) \<noteq> None \<and> ''proj'' \<noteq> [] \<and> ''proj'' \<notin> set prototypeNames"
    by (simp add: newTimeManager_def prototypeNames_def)
  have h2: "branchesDistinct (store newTimeManager)"
    by (simp add: branchesDistinct_def branchesOf_def lookupProject_def lookupDay_def
        projectsOf_def newTimeManager_def)
  have b0: "branchesOf (store newTimeManager) ?t ''proj'' = []"
    by (simp add: branchesOf_def newTimeManager_lookup)
  from main [THEN conjunct1, THEN mp, OF h1]
  obtain tm1 where r: "addBranch clock0 ''proj'' ''main'' newTimeManager = Done tm1" ..
  note after1 = main [THEN conjunct2, THEN conjunct1, THEN spec, THEN mp, OF r]
  have b1: "branchesOf (store tm1) ?t ''proj'' = [''main'']"
    using after1 [THEN conjunct1] by (simp add: b0 newSet_def set_add_def)
  have d: "addBranch clock0 ''proj'' ''main'' tm1 = Done tm1"
    using after1 by blast
  have d1: "days (store tm1) \<noteq> None"
    by (rule addBranch_Done_days [OF d])
  note second = addBranch_set_semantics [of tm1 "''proj''" clock0 "''dev''"]
  from second [THEN conjunct1, THEN mp] d1 h1
  obtain tm2 where r2: "addBranch clock0 ''proj'' ''dev'' tm1 = Done tm2" by blast
  note after2 = second [THEN conjunct2, THEN conjunct1, THEN spec, THEN mp, OF r2]
  have b2: "branchesOf (store tm2) ?t ''proj'' = [''main'', ''dev'']"
    using after2 [THEN conjunct2, THEN conjunct2, THEN conjunct2, THEN conjunct1] by (simp add: b1)
  from main h2 have e: "count_list (branchesOf (store (addBranchCalls
          [(clock0, ''proj'', ''main''), (clock0, ''proj'', ''main'')] newTimeManager))
          ?t ''proj'') ''main'' \<le> 1"
    by blast
  from r b1 d r2 b2 have "\<exists>tm1 tm2. addBranch clock0 ''proj'' ''main'' newTimeManager = Done tm1
        \<and> branchesOf (store tm1) ?t ''proj'' = [''main'']
        \<and> addBranch clock0 ''proj'' ''main'' tm1 = Done tm1
        \<and> addBranch clock0 ''proj'' ''dev'' tm1 = Done tm2
        \<and> branchesOf (store tm2) ?t ''proj'' = [''main'', ''dev'']"
    by (intro exI conjI)
  with h1 h2 e show ?thesis by (intro conjI) simp_all
qed

text \<open>
  C5.  \<open>endTracking(p)\<close> for a project without a session.  The session is looked up
  as \<open>this.activeProjects[p]\<close> on a plain object: when \<open>p\<close> is the name of a member of
  \<open>Object.prototype\<close> (\<open>constructor\<close>, \<open>toString\<close>, ...), the lookup finds that member,
  the test \<open>if (!start)\<close> does not return, and the call throws a \<open>TypeError\<close>,
  store and sessions being as before.  For every other name the call returns and
  changes nothing.  With a session that began at \<open>start\<close> (on a store that has its
  \<open>days\<close>, for a name that is not empty and not that of such a member) the call
  returns, \<open>p\<close> has no session afterwards, the other sessions are as before, \<open>p\<close>'s
  entry in today's ledger is the repaired (or fresh) entry with the settled time
  added to its seconds, and nothing else in the store is touched.  The settled time
  is the elapsed time \<open>(now - start) / 1000\<close> whenever the clock did not run
  backwards.
\<close>

theorem endTracking_settles_or_noop:
  "(map_of (activeProjects tm) p = None \<longrightarrow>
      endTracking now p tm = (if p \<in> set prototypeNames then Thrown TypeError tm else Done tm))
   \<and> (\<forall>start. map_of (activeProjects tm) p = Some start \<and> days (store tm) \<noteq> None
          \<and> p \<noteq> [] \<and> p \<notin> set prototypeNames \<longrightarrow>
        (\<exists>tm'. endTracking now p tm = Done tm'
           \<and> map_of (activeProjects tm') p = None
           \<and> (\<forall>q. q \<noteq> p \<longrightarrow> map_of (activeProjects tm') q = map_of (activeProjects tm) q)
           \<and> lookupProject (store tm') (dateString now 0) p =
                Some ((entryFor (store tm) (dateString now 0) p)\<lparr>seconds :=
                  Num (recordedSeconds (store tm) (dateString now 0) p + settled now start)\<rparr>)
           \<and> (start \<le> getTime now \<longrightarrow> settled now start = real_of_int (getTime now - start) / 1000)
           \<and> (\<forall>day q. \<not> (day = dateString now 0 \<and> q = p) \<longrightarrow>
                 lookupProject (store tm') day q = lookupProject (store tm) day q)
           \<and> (\<forall>day ext. lookupSave (store tm') day ext = lookupSave (store tm) day ext)))"
proof (intro conjI impI allI)
  assume "map_of (activeProjects tm) p = None"
  then show "endTracking now p tm = (if p \<in> set prototypeNames then Thrown TypeError tm else Done tm)"
    by (simp add: endTracking_inactive endTracking_inherited)
next
  fix start
  assume h: "map_of (activeProjects tm) p = Some start \<and> days (store tm) \<noteq> None
      \<and> p \<noteq> [] \<and> p \<notin> set prototypeNames"
  then have a: "map_of (activeProjects tm) p = Some start" and d: "days (store tm) \<noteq> None"
    and p: "entersLedger (store tm) (dateString now 0) p"
    by (simp_all add: entersLedger_ordinary)
  from endTracking_Done_ex [OF a d p] obtain t where
    r: "endTracking now p tm = Done t"
    and st: "store t = stateOf (updateDetails now p (secondsDelta (settled now start)) (store tm))"
    and act: "activeProjects t = AList.delete p (activeProjects tm)"
    by blast
  have "map_of (activeProjects t) p = None"
    by (simp add: act delete_conv')
  moreover have "\<forall>q. q \<noteq> p \<longrightarrow> map_of (activeProjects t) q = map_of (activeProjects tm) q"
    by (simp add: act delete_conv')
  moreover have "lookupProject (store t) (dateString now 0) p =
      Some ((entryFor (store tm) (dateString now 0) p)\<lparr>seconds :=
        Num (recordedSeconds (store tm) (dateString now 0) p + settled now start)\<rparr>)"
    by (simp add: st lookupProject_settle [OF d p])
  moreover have "start \<le> getTime now \<longrightarrow> settled now start = real_of_int (getTime now - start) / 1000"
    by (simp add: settled_forward)
  moreover have "\<forall>day q. \<not> (day = dateString now 0 \<and> q = p) \<longrightarrow>
      lookupProject (store t) day q = lookupProject (store tm) day q"
    by (simp add: st lookupProject_settle [OF d p])
  moreover have "\<forall>day ext. lookupSave (store t) day ext = lookupSave (store tm) day ext"
    by (simp add: st lookupSave_updateDetails)
  ultimately show "\<exists>tm'. endTracking now p tm = Done tm'
           \<and> map_of (activeProjects tm') p = None
           \<and> (\<forall>q. q \<noteq> p \<longrightarrow> map_of (activeProjects tm') q = map_of (activeProjects tm) q)
           \<and> lookupProject (store tm') (dateString now 0) p =
                Some ((entryFor (store tm) (dateString now 0) p)\<lparr>seconds :=
                  Num (recordedSeconds (store tm) (dateString now 0) p + settled now start)\<rparr>)
           \<and> (start \<le> getTime now \<longrightarrow> settled now start = real_of_int (getTime now - start) / 1000)
           \<and> (\<forall>day q. \<not> (day = dateString now 0 \<and> q = p) \<longrightarrow>
                 lookupProject (store tm') day q = lookupProject (store tm) day q)
           \<and> (\<forall>day ext. lookupSave (store tm') day ext = lookupSave (store tm) day ext)"
    using r by blast
qed

theorem endTracking_settles_or_noop_witness:
  "map_of (activeProjects newTimeManager) ''constructor'' = None
   \<and> endTracking clock0 ''constructor'' newTimeManager = Thrown TypeError newTimeManager
   \<and> map_of (activeProjects newTimeManager) ''proj'' = None
   \<and> endTracking clock0 ''proj'' newTimeManager = Done newTimeManager
   \<and> map_of (activeProjects tracking0) ''proj'' = Some 1793699990000
   \<and> days (store tracking0) \<noteq> None \<and> ''proj'' \<noteq> [] \<and> ''proj'' \<notin> set prototypeNames
   \<and> (\<exists>tm'. endTracking clock0 ''proj'' tracking0 = Done tm'
        \<and> map_of (activeProjects tm') ''proj'' = None
        \<and> lookupProject (store tm') (dateString clock0 0) ''proj'' = Some (freshDetails\<lparr>seconds := Num 10\<rparr>))"
proof -
  have h0: "map_of (activeProjects newTimeManager) q = None" for q
    by (simp add: newTimeManager_def)
  have h1: "map_of (activeProjects tracking0) ''proj'' = Some 1793699990000
      \<and> days (store tracking0) \<noteq> None \<and> ''proj'' \<noteq> [] \<and> ''proj'' \<notin> set prototypeNames"
    by (simp add: tracking0_active tracking0_store newTimeManager_def prototypeNames_def)
  have c: "endTracking clock0 ''constructor'' newTimeManager = Thrown TypeError newTimeManager"
    using endTracking_settles_or_noop [of newTimeManager "''constructor''" clock0, THEN conjunct1, THEN mp, OF h0]
    by (simp add: prototypeNames_def)
  have a: "endTracking clock0 ''proj'' newTimeManager = Done newTimeManager"
    using endTracking_settles_or_noop [of newTimeManager "''proj''" clock0, THEN conjunct1, THEN mp, OF h0]
    by (simp add: prototypeNames_def)
  from endTracking_settles_or_noop [of tracking0 "''proj''" clock0, THEN conjunct2, THEN spec, THEN mp, OF h1]
  obtain tm' where r: "endTracking clock0 ''proj'' tracking0 = Done tm'"
    and n: "map_of (activeProjects tm') ''proj'' = None"
    and l: "lookupProject (store tm') (dateString clock0 0) ''proj'' =
        Some ((entryFor (store tracking0) (dateString clock0 0) ''proj'')\<lparr>seconds :=
          Num (recordedSeconds (store tracking0) (dateString clock0 0) ''proj'' + settled clock0 1793699990000)\<rparr>)"
    by (elim exE conjE)
  have "lookupProject (store tm') (dateString clock0 0) ''proj'' = Some (freshDetails\<lparr>seconds := Num 10\<rparr>)"
    by (simp add: l entryFor_def recordedSeconds_def tracking0_store newTimeManager_lookup settled_clock0)
  with r n have "\<exists>tm'. endTracking clock0 ''proj'' tracking0 = Done tm'
        \<and> map_of (activeProjects tm') ''proj'' = None
        \<and> lookupProject (store tm') (dateString clock0 0) ''proj'' = Some (freshDetails\<lparr>seconds := Num 10\<rparr>)"
    by (intro exI conjI)
  with h0 h1 a c show ?thesis by (intro conjI) simp_all
qed

text \<open>
  C7.  A settle adds the elapsed time clamped below at zero.  \<open>endTracking(p)\<close>
  leaves \<open>p\<close>'s seconds for today at the recorded value plus
  \<open>max 0 (secondsSize start)\<close>; \<open>updateAllDaySeconds\<close> does so for every project
  with a session (the session keys being the distinct keys of an object).  This is
  for names under which the ledger gets an entry: not the empty name, and the name
  of a member of \<open>Object.prototype\<close> only when today's ledger has an entry of that
  name already.  When the clock reads no later than the session start, the amount is
  \<open>0\<close>.  Through either operation, however it ends, no recorded seconds value goes
  down, and a store without negative seconds stays without.
\<close>

theorem settle_adds_clamped_elapsed:
  "(\<forall>start. map_of (activeProjects tm) p = Some start \<and> days (store tm) \<noteq> None \<and> p \<noteq> []
        \<and> (p \<in> set prototypeNames \<longrightarrow> lookupProject (store tm) (dateString now 0) p \<noteq> None) \<longrightarrow>
      (\<exists>tm'. endTracking now p tm = Done tm'
         \<and> map_option seconds (lookupProject (store tm') (dateString now 0) p) =
             Some (Num (recordedSeconds (store tm) (dateString now 0) p + max 0 (secondsSize now start)))))
   \<and> (days (store tm) \<noteq> None \<and> [] \<notin> set (getTracking tm) \<and> distinct (getTracking tm)
        \<and> (\<forall>q \<in> set (getTracking tm). q \<in> set prototypeNames \<longrightarrow>
              lookupProject (store tm) (dateString now 0) q \<noteq> None) \<longrightarrow>
      (\<exists>tm'. updateAllDaySeconds now tm = Done tm'
         \<and> (\<forall>q start. map_of (activeProjects tm) q = Some start \<longrightarrow>
               map_option seconds (lookupProject (store tm') (dateString now 0) q) =
                 Some (Num (recordedSeconds (store tm) (dateString now 0) q + max 0 (secondsSize now start))))))
   \<and> (\<forall>start. getTime now \<le> start \<longrightarrow> max 0 (secondsSize now start) = 0)
   \<and> (\<forall>day q. recordedSeconds (store tm) day q \<le> recordedSeconds (store (stateOf (endTracking now p tm))) day q)
   \<and> (\<forall>day q. recordedSeconds (store tm) day q \<le> recordedSeconds (store (stateOf (updateAllDaySeconds now tm))) day q)
   \<and> (secondsNonneg (store tm) \<longrightarrow>
        secondsNonneg (store (stateOf (endTracking now p tm)))
        \<and> secondsNonneg (store (stateOf (updateAllDaySeconds now tm))))"
proof (intro conjI impI allI)
  fix start
  assume h: "map_of (activeProjects tm) p = Some start \<and> days (store tm) \<noteq> None \<and> p \<noteq> []
      \<and> (p \<in> set prototypeNames \<longrightarrow> lookupProject (store tm) (dateString now 0) p \<noteq> None)"
  then have a: "map_of (activeProjects tm) p = Some start" and d: "days (store tm) \<noteq> None"
    and p: "entersLedger (store tm) (dateString now 0) p"
    by (auto simp: entersLedger_def)
  from endTracking_Done_ex [OF a d p] obtain t where
    r: "endTracking now p tm = Done t"
    and st: "store t = stateOf (updateDetails now p (secondsDelta (settled now start)) (store tm))"
    by blast
  have "map_option seconds (lookupProject (store t) (dateString now 0) p) =
      Some (Num (recordedSeconds (store tm) (dateString now 0) p + max 0 (secondsSize now start)))"
    by (simp add: st lookupProject_settle [OF d p] settled_def)
  with r show "\<exists>tm'. endTracking now p tm = Done tm'
         \<and> map_option seconds (lookupProject (store tm') (dateString now 0) p) =
             Some (Num (recordedSeconds (store tm) (dateString now 0) p + max 0 (secondsSize now start)))"
    by blast
next
  assume h: "days (store tm) \<noteq> None \<and> [] \<notin> set (getTracking tm) \<and> distinct (getTracking tm)
      \<and> (\<forall>q \<in> set (getTracking tm). q \<in> set prototypeNames \<longrightarrow>
            lookupProject (store tm) (dateString now 0) q \<noteq> None)"
  then have d: "days (store tm) \<noteq> None" and k: "distinct (map fst (activeProjects tm))"
    by (simp_all add: getTracking_def)
  have e: "\<forall>q\<in>set (map fst (activeProjects tm)).
      map_of (activeProjects tm) q \<noteq> None \<and> entersLedger (store tm) (dateString now 0) q"
  proof
    fix q
    assume q: "q \<in> set (map fst (activeProjects tm))"
    then have "map_of (activeProjects tm) q \<noteq> None"
      by (simp add: map_of_eq_None_iff)
    moreover have "q \<noteq> []"
    proof -
      from h have "[] \<notin> set (map fst (activeProjects tm))"
        unfolding getTracking_def by blast
      with q show ?thesis by blast
    qed
    moreover have "q \<in> set prototypeNames \<longrightarrow> lookupProject (store tm) (dateString now 0) q \<noteq> None"
      using h q unfolding getTracking_def by blast
    moreover from this have "entersLedger (store tm) (dateString now 0) q"
      using \<open>q \<noteq> []\<close> by (auto simp: entersLedger_def)
    ultimately show "map_of (activeProjects tm) q \<noteq> None \<and> entersLedger (store tm) (dateString now 0) q"
      by simp
  qed
  from settleEach_exact [OF d e k] obtain t where
    r: "settleEach now (map fst (activeProjects tm)) tm = Done t"
    and l: "\<And>day q. lookupProject (store t) day q =
            (case map_of (activeProjects tm) q of
               None \<Rightarrow> lookupProject (store tm) day q
             | Some start \<Rightarrow>
                 if day = dateString now 0 \<and> q \<in> set (map fst (activeProjects tm))
                 then Some ((entryFor (store tm) day q)\<lparr>seconds :=
                        Num (recordedSeconds (store tm) day q + settled now start)\<rparr>)
                 else lookupProject (store tm) day q)"
    by blast
  have "\<forall>q start. map_of (activeProjects tm) q = Some start \<longrightarrow>
               map_option seconds (lookupProject (store t) (dateString now 0) q) =
                 Some (Num (recordedSeconds (store tm) (dateString now 0) q + max 0 (secondsSize now start)))"
    using map_of_Some_in_keys [of "activeProjects tm"] by (auto simp: l settled_def)
  with r show "\<exists>tm'. updateAllDaySeconds now tm = Done tm'
         \<and> (\<forall>q start. map_of (activeProjects tm) q = Some start \<longrightarrow>
               map_option seconds (lookupProject (store tm') (dateString now 0) q) =
                 Some (Num (recordedSeconds (store tm) (dateString now 0) q + max 0 (secondsSize now start))))"
    unfolding updateAllDaySeconds_def by blast
next
  fix start
  assume "getTime now \<le> start"
  then show "max 0 (secondsSize now start) = 0"
    by (simp add: secondsSize_def max_def)
next
  fix day q
  show "recordedSeconds (store tm) day q \<le> recordedSeconds (store (stateOf (endTracking now p tm))) day q"
    by (simp add: store_endTracking recordedSeconds_updateDaySeconds_mono)
next
  fix day q
  show "recordedSeconds (store tm) day q \<le> recordedSeconds (store (stateOf (updateAllDaySeconds now tm))) day q"
    by (simp add: updateAllDaySeconds_def settleEach_mono)
next
  assume "secondsNonneg (store tm)"
  then show "secondsNonneg (store (stateOf (endTracking now p tm)))"
    by (simp add: store_endTracking secondsNonneg_updateDaySeconds)
next
  assume "secondsNonneg (store tm)"
  then show "secondsNonneg (store (stateOf (updateAllDaySeconds now tm)))"
    by (simp add: updateAllDaySeconds_def settleEach_nonneg)
qed

theorem settle_adds_clamped_elapsed_witness:
  "map_of (activeProjects tracking0) ''proj'' = Some 1793699990000
   \<and> days (store tracking0) \<noteq> None \<and> ''proj'' \<noteq> [] \<and> ''proj'' \<notin> set prototypeNames
   \<and> (\<exists>tm'. endTracking clockBack ''proj'' tracking0 = Done tm'
        \<and> map_option seconds (lookupProject (store tm') (dateString clockBack 0) ''proj'') = Some (Num 0))
   \<and> [] \<notin> set (getTracking tracking0) \<and> distinct (getTracking tracking0)
   \<and> set (getTracking tracking0) \<inter> set prototypeNames = {}
   \<and> (\<exists>tm'. updateAllDaySeconds clock0 tracking0 = Done tm'
        \<and> map_option seconds (lookupProject (store tm') (dateString clock0 0) ''proj'') = Some (Num 10))
   \<and> getTime clockBack \<le> 1793699990000
   \<and> secondsNonneg (store tracking0)
   \<and> secondsNonneg (store (stateOf (endTracking clockBack ''proj'' tracking0)))"
proof -
  have np: "''proj'' \<notin> set prototypeNames"
    by (simp add: prototypeNames_def)
  have h1: "map_of (activeProjects tracking0) ''proj'' = Some 1793699990000
      \<and> days (store tracking0) \<noteq> None \<and> ''proj'' \<noteq> []
      \<and> (''proj'' \<in> set prototypeNames \<longrightarrow> lookupProject (store tracking0) (dateString clockBack 0) ''proj'' \<noteq> None)"
    using np by (simp add: tracking0_active tracking0_store newTimeManager_def)
  have h2: "days (store tracking0) \<noteq> None \<and> [] \<notin> set (getTracking tracking0) \<and> distinct (getTracking tracking0)
      \<and> (\<forall>q \<in> set (getTracking tracking0). q \<in> set prototypeNames \<longrightarrow>
            lookupProject (store tracking0) (dateString clock0 0) q \<noteq> None)"
    using np by (simp add: tracking0_keys tracking0_store newTimeManager_def)
  have h3: "getTime clockBack \<le> 1793699990000"
    by (simp add: clockBack_def)
  have h4: "secondsNonneg (store tracking0)"
    by (simp add: tracking0_store newTimeManager_nonneg)
  have rec: "recordedSeconds (store tracking0) day ''proj'' = 0" for day
    by (simp add: recordedSeconds_def tracking0_store newTimeManager_lookup)
  note bwd = settle_adds_clamped_elapsed [of tracking0 "''proj''" clockBack]
  note fwd = settle_adds_clamped_elapsed [of tracking0 "''proj''" clock0]
  have zero: "max 0 (secondsSize clockBack 1793699990000) = 0"
    by (rule bwd [THEN conjunct2, THEN conjunct2, THEN conjunct1, THEN spec, THEN mp, OF h3])
  from bwd [THEN conjunct1, THEN spec, THEN mp, OF h1]
  have a: "\<exists>tm'. endTracking clockBack ''proj'' tracking0 = Done tm'
        \<and> map_option seconds (lookupProject (store tm') (dateString clockBack 0) ''proj'') = Some (Num 0)"
    by (simp add: rec zero)
  from fwd [THEN conjunct2, THEN conjunct1, THEN mp, OF h2]
  obtain tm' where r: "updateAllDaySeconds clock0 tracking0 = Done tm'"
    and l: "\<forall>q start. map_of (activeProjects tracking0) q = Some start \<longrightarrow>
               map_option seconds (lookupProject (store tm') (dateString clock0 0) q) =
                 Some (Num (recordedSeconds (store tracking0) (dateString clock0 0) q + max 0 (secondsSize clock0 start)))"
    by (elim exE conjE)
  from l [THEN spec, THEN spec, THEN mp, OF tracking0_active]
  have "map_option seconds (lookupProject (store tm') (dateString clock0 0) ''proj'') = Some (Num 10)"
    using settled_clock0 by (simp add: rec settled_def)
  with r have b: "\<exists>tm'. updateAllDaySeconds clock0 tracking0 = Done tm'
        \<and> map_option seconds (lookupProject (store tm') (dateString clock0 0) ''proj'') = Some (Num 10)"
    by (intro exI conjI)
  have c: "secondsNonneg (store (stateOf (endTracking clockBack ''proj'' tracking0)))"
    by (rule bwd [THEN conjunct2, THEN conjunct2, THEN conjunct2, THEN conjunct2, THEN conjunct2,
          THEN mp, OF h4, THEN conjunct1])
  have k: "[] \<notin> set (getTracking tracking0) \<and> distinct (getTracking tracking0)
      \<and> set (getTracking tracking0) \<inter> set prototypeNames = {}"
    using np by (simp add: tracking0_keys)
  from h1 np k h3 h4 a b c show ?thesis by (intro conjI) simp_all
qed

text \<open>
  C8.  \<open>load\<close> never throws: whatever the file, it returns.  When the file is
  missing, unreadable or not parseable, the manager is left as it was, which for
  the manager as constructed is the empty store tagged \<open>v2\<close>.
\<close>

theorem load_never_throws:
  "(\<exists>t. load f tm = Done t)
   \<and> load NoFile tm = Done tm \<and> load Malformed tm = Done tm
   \<and> store (stateOf (load NoFile newTimeManager)) = \<lparr>version = ''v2'', days = Some Map.empty\<rparr>
   \<and> store (stateOf (load Malformed newTimeManager)) = \<lparr>version = ''v2'', days = Some Map.empty\<rparr>"
  by (cases f) (simp_all add: load_def loadBody_def newTimeManager_def CURRENT_SCHEMA_VERSION_def)




text \<open>
  C1, as the code has it.  When the store and the file both have a ledger for today
  (each with its \<open>projects\<close>), \<open>save\<close> merges today's projects and writes the
  store: a project that has a session and an entry in memory keeps the entry in
  memory, every other project gets what the file has for today (nothing, when the
  file has no entry), and the written file holds exactly these.  So an entry another
  instance wrote for a project without a session here is in the written file as it
  was in the file read.  When the store or the file has no ledger for today,
  nothing is merged and the store is written as it is.  (The session keys are the
  own keys of an object built by assignments, \<open>__proto__\<close> is none of them.  A
  session without an entry in memory under the name of a function of
  \<open>Object.prototype\<close> puts that function in the place of the file's entry, and
  \<open>JSON.stringify\<close> writes none.)
\<close>

theorem merge_on_save:
  "(lookupDay (store tm) (dateString now 0) = Some md \<and> projects md = Some mp
      \<and> lookupDay ld (dateString now 0) = Some dd \<and> projects dd = Some dp
      \<and> ''__proto__'' \<notin> set (getTracking tm) \<longrightarrow>
      (\<exists>tm'. save now (Content ld) tm = Done (tm', Content (jsonStore (store tm')))
         \<and> activeProjects tm' = activeProjects tm
         \<and> (\<forall>pid. lookupProject (store tm') (dateString now 0) pid =
               (if pid \<in> set (getTracking tm) \<and> mp pid \<noteq> None then mp pid
                else if pid \<in> set (getTracking tm) \<and> pid \<in> set prototypeNames then None
                else dp pid))
         \<and> (\<forall>pid. lookupProject (jsonStore (store tm')) (dateString now 0) pid =
               map_option jsonDetails
                 (if pid \<in> set (getTracking tm) \<and> mp pid \<noteq> None then mp pid
                  else if pid \<in> set (getTracking tm) \<and> pid \<in> set prototypeNames then None
                  else dp pid))
         \<and> (jsonStore ld = ld \<longrightarrow>
              (\<forall>pid. pid \<notin> set (getTracking tm) \<longrightarrow>
                 lookupProject (jsonStore (store tm')) (dateString now 0) pid =
                   lookupProject ld (dateString now 0) pid))))
   \<and> (days (store tm) \<noteq> None
        \<and> (lookupDay (store tm) (dateString now 0) = None \<or> lookupDay ld (dateString now 0) = None) \<longrightarrow>
        save now (Content ld) tm = Done (tm, Content (jsonStore (store tm))))"
proof (intro conjI impI)
  let ?t = "dateString now 0"
  let ?merged = "\<lambda>pid. if pid \<in> set (getTracking tm) \<and> mp pid \<noteq> None then mp pid
      else if pid \<in> set (getTracking tm) \<and> pid \<in> set prototypeNames then None else dp pid"
  assume h: "lookupDay (store tm) ?t = Some md \<and> projects md = Some mp
      \<and> lookupDay ld ?t = Some dd \<and> projects dd = Some dp
      \<and> ''__proto__'' \<notin> set (getTracking tm)"
  then have h1: "lookupDay (store tm) ?t = Some md" and h2: "projects md = Some mp"
    and h3: "lookupDay ld ?t = Some dd" and h4: "projects dd = Some dp"
    and h5: "''__proto__'' \<notin> set (getTracking tm)"
    by simp_all
  from checkForChanges_merge [OF h1 h2 h3 h4 h5] obtain t where
    r: "checkForChanges now (Content ld) tm = Done t"
    and l: "\<forall>pid. lookupProject (store t) ?t pid = ?merged pid"
    by blast
  have s: "save now (Content ld) tm = Done (t, Content (jsonStore (store t)))"
    by (simp add: save_def r)
  have a: "activeProjects t = activeProjects tm"
    using checkForChanges_result [OF r] by simp
  have j: "\<forall>pid. lookupProject (jsonStore (store t)) ?t pid = map_option jsonDetails (?merged pid)"
    using l by (simp add: lookupProject_jsonStore)
  have dl: "lookupProject ld ?t pid = dp pid" for pid
    using h3 h4 by (simp add: lookupProject_def projectsOf_def)
  have c: "jsonStore ld = ld \<longrightarrow>
      (\<forall>pid. pid \<notin> set (getTracking tm) \<longrightarrow>
         lookupProject (jsonStore (store t)) ?t pid = lookupProject ld ?t pid)"
  proof (intro impI allI)
    fix pid
    assume clean: "jsonStore ld = ld" and "pid \<notin> set (getTracking tm)"
    then have "lookupProject (jsonStore (store t)) ?t pid = map_option jsonDetails (dp pid)"
      using j by simp
    also have "\<dots> = dp pid"
      using json_clean_entry [OF clean, of ?t pid] dl [of pid] by (cases "dp pid") simp_all
    finally show "lookupProject (jsonStore (store t)) ?t pid = lookupProject ld ?t pid"
      by (simp add: dl)
  qed
  from s a l j c show "\<exists>tm'. save now (Content ld) tm = Done (tm', Content (jsonStore (store tm')))
         \<and> activeProjects tm' = activeProjects tm
         \<and> (\<forall>pid. lookupProject (store tm') ?t pid = ?merged pid)
         \<and> (\<forall>pid. lookupProject (jsonStore (store tm')) ?t pid = map_option jsonDetails (?merged pid))
         \<and> (jsonStore ld = ld \<longrightarrow>
              (\<forall>pid. pid \<notin> set (getTracking tm) \<longrightarrow>
                 lookupProject (jsonStore (store tm')) ?t pid = lookupProject ld ?t pid))"
    by blast
next
  assume "days (store tm) \<noteq> None
        \<and> (lookupDay (store tm) (dateString now 0) = None \<or> lookupDay ld (dateString now 0) = None)"
  then have "checkForChanges now (Content ld) tm = Done tm"
    using checkForChanges_no_merge by blast
  then show "save now (Content ld) tm = Done (tm, Content (jsonStore (store tm)))"
    by (simp add: save_def)
qed

theorem merge_on_save_witness:
  "lookupDay (store managerA) (dateString clock0 0) \<noteq> None
   \<and> lookupDay diskB (dateString clock0 0) \<noteq> None
   \<and> getTracking managerA = [''X''] \<and> jsonStore diskB = diskB
   \<and> lookupProject (store managerA) (dateString clock0 0) ''Y'' = Some (entryY\<lparr>seconds := Num 100\<rparr>)
   \<and> lookupProject diskB (dateString clock0 0) ''X'' = Some (entryX\<lparr>seconds := Num 50\<rparr>)
   \<and> (\<exists>tm'. save clock0 (Content diskB) managerA = Done (tm', Content (jsonStore (store tm')))
        \<and> lookupProject (jsonStore (store tm')) (dateString clock0 0) ''X'' = Some entryX
        \<and> lookupProject (jsonStore (store tm')) (dateString clock0 0) ''Y'' = Some entryY)
   \<and> days (store quietManager) \<noteq> None
   \<and> lookupDay (store quietManager) (dateString clock0 0) = None
   \<and> save clock0 (Content diskB) quietManager = Done (quietManager, Content (jsonStore (store quietManager)))"
proof -
  let ?t = "dateString clock0 0"
  let ?mp = "[''X'' \<mapsto> entryX, ''Y'' \<mapsto> entryY\<lparr>seconds := Num 100\<rparr>]"
  let ?dp = "[''X'' \<mapsto> entryX\<lparr>seconds := Num 50\<rparr>, ''Y'' \<mapsto> entryY]"
  let ?md = "\<lparr>projects = Some ?mp, saves = Some [''.ts'' \<mapsto> Num 1]\<rparr>"
  let ?dd = "\<lparr>projects = Some ?dp, saves = Some [''.ts'' \<mapsto> Num 5]\<rparr>"
  have h: "lookupDay (store managerA) ?t = Some ?md \<and> projects ?md = Some ?mp
      \<and> lookupDay diskB ?t = Some ?dd \<and> projects ?dd = Some ?dp
      \<and> ''__proto__'' \<notin> set (getTracking managerA)"
    by (simp add: managerA_today diskB_today managerA_tracking)
  from merge_on_save [of managerA clock0 ?md ?mp diskB ?dd ?dp, THEN conjunct1, THEN mp, OF h]
  obtain tm' where s: "save clock0 (Content diskB) managerA = Done (tm', Content (jsonStore (store tm')))"
    and j: "\<forall>pid. lookupProject (jsonStore (store tm')) ?t pid =
               map_option jsonDetails
                 (if pid \<in> set (getTracking managerA) \<and> ?mp pid \<noteq> None then ?mp pid
                  else if pid \<in> set (getTracking managerA) \<and> pid \<in> set prototypeNames then None
                  else ?dp pid)"
    and c: "jsonStore diskB = diskB \<longrightarrow>
              (\<forall>pid. pid \<notin> set (getTracking managerA) \<longrightarrow>
                 lookupProject (jsonStore (store tm')) ?t pid = lookupProject diskB ?t pid)"
    by (elim exE conjE)
  have x: "lookupProject (jsonStore (store tm')) ?t ''X'' = Some entryX"
    using j [THEN spec, of "''X''"] by (simp add: managerA_tracking jsonDetails_entryX)
  have dy: "lookupProject diskB ?t ''Y'' = Some entryY"
    by (simp add: lookupProject_def diskB_today projectsOf_def)
  have y: "lookupProject (jsonStore (store tm')) ?t ''Y'' = Some entryY"
    using c [THEN mp, OF diskB_clean, THEN spec, of "''Y''"] by (simp add: managerA_tracking dy)
  from s x y have e: "\<exists>tm'. save clock0 (Content diskB) managerA = Done (tm', Content (jsonStore (store tm')))
        \<and> lookupProject (jsonStore (store tm')) ?t ''X'' = Some entryX
        \<and> lookupProject (jsonStore (store tm')) ?t ''Y'' = Some entryY"
    by (intro exI conjI)
  have q: "days (store quietManager) \<noteq> None
        \<and> (lookupDay (store quietManager) ?t = None \<or> lookupDay diskB ?t = None)"
    by (simp add: quietManager_today) (simp add: quietManager_def)
  have n: "save clock0 (Content diskB) quietManager = Done (quietManager, Content (jsonStore (store quietManager)))"
    by (rule merge_on_save [of quietManager clock0 ?md ?mp diskB ?dd ?dp, THEN conjunct2, THEN mp, OF q])
  have m1: "lookupProject (store managerA) ?t ''Y'' = Some (entryY\<lparr>seconds := Num 100\<rparr>)"
    by (simp add: lookupProject_def managerA_today projectsOf_def)
  have m2: "lookupProject diskB ?t ''X'' = Some (entryX\<lparr>seconds := Num 50\<rparr>)"
    by (simp add: lookupProject_def diskB_today projectsOf_def)
  from e n q m1 m2 managerA_tracking diskB_clean quietManager_today managerA_today diskB_today
  show ?thesis by (intro conjI) simp_all
qed

text \<open>
  Against C1 as stated: an instance with no ledger for today does not merge.  Its
  \<open>save\<close> overwrites the file with its own store, and the entry another instance
  wrote today for \<open>Y\<close>, a project without a session here, is not in the written file.
\<close>

theorem merge_on_save_counterexample:
  "save clock0 (Content diskB) quietManager = Done (quietManager, Content (jsonStore (store quietManager)))
   \<and> ''Y'' \<notin> set (getTracking quietManager)
   \<and> lookupProject diskB (dateString clock0 0) ''Y'' = Some entryY
   \<and> lookupProject (jsonStore (store quietManager)) (dateString clock0 0) ''Y'' = None"
proof -
  have "checkForChanges clock0 (Content diskB) quietManager = Done quietManager"
    by (rule checkForChanges_no_merge) (simp_all add: quietManager_today, simp add: quietManager_def)
  then have "save clock0 (Content diskB) quietManager = Done (quietManager, Content (jsonStore (store quietManager)))"
    by (simp add: save_def)
  moreover have "''Y'' \<notin> set (getTracking quietManager)"
    by (simp add: getTracking_def quietManager_def)
  moreover have "lookupProject diskB (dateString clock0 0) ''Y'' = Some entryY"
    by (simp add: lookupProject_def diskB_today projectsOf_def)
  moreover have "lookupProject (jsonStore (store quietManager)) (dateString clock0 0) ''Y'' = None"
    by (simp add: lookupProject_jsonStore) (simp add: lookupProject_def quietManager_today projectsOf_def)
  ultimately show ?thesis by (intro conjI)
qed

text \<open>
  C9.  The merge touches today's \<open>projects\<close> only.  Whenever \<open>save\<close> writes, the file
  is the serialised store, and in it the \<open>saves\<close> of every day, the ledgers of all
  days but today and the version tag are those this instance had in memory before the
  call, whatever the file held: save counts another instance wrote are replaced.
\<close>

theorem saves_not_merged:
  "save now f tm = Done (tm', f') \<longrightarrow>
     f' = Content (jsonStore (store tm'))
     \<and> (\<forall>day. map_option saves (lookupDay (store tm') day) = map_option saves (lookupDay (store tm) day))
     \<and> (\<forall>day. lookupSave (jsonStore (store tm')) day = jsonSaves (lookupSave (store tm) day))
     \<and> (\<forall>day. day \<noteq> dateString now 0 \<longrightarrow> lookupDay (store tm') day = lookupDay (store tm) day)
     \<and> version (store tm') = version (store tm)"
proof
  assume s: "save now f tm = Done (tm', f')"
  then have r: "checkForChanges now f tm = Done tm'" and f': "f' = Content (jsonStore (store tm'))"
    by (auto simp: save_def split: outcome.splits)
  note res = checkForChanges_result [OF r]
  have v: "version (store tm') = version (store tm)"
    by (rule res [THEN conjunct2, THEN conjunct1])
  have o: "\<forall>day. day \<noteq> dateString now 0 \<longrightarrow> lookupDay (store tm') day = lookupDay (store tm) day"
    by (rule res [THEN conjunct2, THEN conjunct2, THEN conjunct2, THEN conjunct1])
  have sv: "\<forall>day. map_option saves (lookupDay (store tm') day) = map_option saves (lookupDay (store tm) day)"
    by (rule res [THEN conjunct2, THEN conjunct2, THEN conjunct2, THEN conjunct2])
  have js: "\<forall>day. lookupSave (jsonStore (store tm')) day = jsonSaves (lookupSave (store tm) day)"
  proof
    fix day
    have "lookupSave (store tm') day = lookupSave (store tm) day"
      by (rule lookupSave_from_saves) (rule sv [THEN spec])
    then show "lookupSave (jsonStore (store tm')) day = jsonSaves (lookupSave (store tm) day)"
      by (simp add: lookupSave_jsonStore_map)
  qed
  from f' sv js o v show "f' = Content (jsonStore (store tm'))
     \<and> (\<forall>day. map_option saves (lookupDay (store tm') day) = map_option saves (lookupDay (store tm) day))
     \<and> (\<forall>day. lookupSave (jsonStore (store tm')) day = jsonSaves (lookupSave (store tm) day))
     \<and> (\<forall>day. day \<noteq> dateString now 0 \<longrightarrow> lookupDay (store tm') day = lookupDay (store tm) day)
     \<and> version (store tm') = version (store tm)"
    by (intro conjI)
qed

theorem saves_not_merged_witness:
  "lookupSave diskB (dateString clock0 0) ''.ts'' = Some (Num 5)
   \<and> lookupSave (store managerA) (dateString clock0 0) ''.ts'' = Some (Num 1)
   \<and> (\<exists>tm' f'. save clock0 (Content diskB) managerA = Done (tm', f')
        \<and> f' = Content (jsonStore (store tm'))
        \<and> lookupSave (jsonStore (store tm')) (dateString clock0 0) ''.ts'' = Some (Num 1))"
proof -
  obtain tm' f' where s: "save clock0 (Content diskB) managerA = Done (tm', f')"
    using save_managerA_returns by blast
  note res = saves_not_merged [of clock0 "Content diskB" managerA tm' f', THEN mp, OF s]
  have f': "f' = Content (jsonStore (store tm'))"
    by (rule res [THEN conjunct1])
  have m: "lookupSave (store managerA) (dateString clock0 0) ''.ts'' = Some (Num 1)"
    by (simp add: lookupSave_def managerA_today savesOf_def)
  have d: "lookupSave diskB (dateString clock0 0) ''.ts'' = Some (Num 5)"
    by (simp add: lookupSave_def diskB_today savesOf_def)
  have "lookupSave (jsonStore (store tm')) (dateString clock0 0) = jsonSaves (lookupSave (store managerA) (dateString clock0 0))"
    by (rule res [THEN conjunct2, THEN conjunct2, THEN conjunct1, THEN spec])
  then have "lookupSave (jsonStore (store tm')) (dateString clock0 0) ''.ts'' = Some (Num 1)"
    using m by (simp add: jsonSaves_def jsonNum_def)
  with s f' have "\<exists>tm' f'. save clock0 (Content diskB) managerA = Done (tm', f')
        \<and> f' = Content (jsonStore (store tm'))
        \<and> lookupSave (jsonStore (store tm')) (dateString clock0 0) ''.ts'' = Some (Num 1)"
    by (intro exI conjI)
  with d m show ?thesis by (intro conjI)
qed

text \<open>
  C10.  The live adjustment runs over the keys of the stored ledger.  A project
  with no entry in today's ledger has none in what \<open>getStats(today)\<close> returns,
  session or not, and \<open>getStats\<close> and \<open>getStatsForPeriod\<close> give what they would
  give without that session: it adds no in-progress time.
\<close>

theorem live_adjustment_needs_entry:
  "lookupProject (store tm) (dateString now 0) p = None \<longrightarrow>
     reported now tm (dateString now 0) p = None
     \<and> (\<forall>day. getStats now day tm = getStats now day (withoutSession p tm))
     \<and> (\<forall>keys q n. getStatsForPeriod now keys q n tm = getStatsForPeriod now keys q n (withoutSession p tm))"
proof
  assume h: "lookupProject (store tm) (dateString now 0) p = None"
  have "\<forall>keys q n. getStatsForPeriod now keys q n tm = getStatsForPeriod now keys q n (withoutSession p tm)"
    using addDayStats_cong [of now "withoutSession p tm" tm, OF getStats_without [OF h]]
    by (simp add: getStatsForPeriod_def)
  with reported_today_None [OF h] getStats_without [OF h]
  show "reported now tm (dateString now 0) p = None
     \<and> (\<forall>day. getStats now day tm = getStats now day (withoutSession p tm))
     \<and> (\<forall>keys q n. getStatsForPeriod now keys q n tm = getStatsForPeriod now keys q n (withoutSession p tm))"
    by simp
qed

theorem live_adjustment_needs_entry_witness:
  "map_of (activeProjects tracking0) ''proj'' = Some 1793699990000
   \<and> lookupProject (store tracking0) (dateString clock0 0) ''proj'' = None
   \<and> reported clock0 tracking0 (dateString clock0 0) ''proj'' = None
   \<and> getStatsForPeriod clock0 [''version'', ''days''] ''proj'' 7 (withoutSession ''proj'' tracking0)
       = Inr freshDetails
   \<and> getStatsForPeriod clock0 [''version'', ''days''] ''proj'' 7 tracking0 = Inr freshDetails"
proof -
  have h: "lookupProject (store tracking0) (dateString clock0 0) ''proj'' = None"
    by (simp add: tracking0_store newTimeManager_lookup)
  note res = live_adjustment_needs_entry [of tracking0 clock0 "''proj''", THEN mp, OF h]
  have a: "reported clock0 tracking0 (dateString clock0 0) ''proj'' = None"
    by (rule res [THEN conjunct1])
  have "getStatsForPeriod clock0 [''version'', ''days''] ''proj'' 7 tracking0 =
      getStatsForPeriod clock0 [''version'', ''days''] ''proj'' 7 (withoutSession ''proj'' tracking0)"
    by (rule res [THEN conjunct2, THEN conjunct2, THEN spec, THEN spec, THEN spec])
  then have b: "getStatsForPeriod clock0 [''version'', ''days''] ''proj'' 7 (withoutSession ''proj'' tracking0)
      = Inr freshDetails"
    by (simp add: tracking0_period)
  from tracking0_active h a b tracking0_period show ?thesis by (intro conjI)
qed

text \<open>
  C3.  \<open>getStatsForPeriod(p, n)\<close> for a positive number of days \<open>n\<close>, on a complete
  store in whose ledger for today every key finds its session or none.  The loop
  goes through exactly the keys of the days at offsets \<open>0, ..., n - 1\<close> back from
  today.  The test for \<open>p\<close>'s entry is \<open>dayStats.projects[p]\<close> on a plain object:
  when \<open>p\<close> is the name of a member of \<open>Object.prototype\<close> and has no entry on these
  days, every day that has a ledger passes the test with that member and adds its
  \<open>undefined\<close> fields, so the sums come out \<open>NaN\<close>, not \<open>0\<close>.  For every other name
  the result has, as seconds, tasks and debugs, the sums of \<open>p\<close>'s values over these
  days, as branches a duplicate-free list whose elements are those of \<open>p\<close>'s branch
  lists of these days.  The value of a day is the one \<open>getStats\<close> reports: the stored
  entry, with the time of a running session added to today's seconds.  A day without
  data or without an entry for \<open>p\<close> adds \<open>0\<close> and no branch; without a session the
  values are the stored ones.  When a key of today's ledger is the name of a member
  of \<open>Object.prototype\<close> and has no session, the call throws for every \<open>p\<close>.
\<close>

theorem getStatsForPeriod_aggregates:
  "0 < n \<and> days (store tm) \<noteq> None \<and> completeStore (store tm) \<longrightarrow>
     getDays now keys n = map (dateString now) [0..<n]
     \<and> (todayResolves now tm \<and> p \<in> set prototypeNames
          \<and> (\<forall>i<n. lookupProject (store tm) (dateString now i) p = None) \<longrightarrow>
          getStatsForPeriod now keys p n tm =
            Inr (if \<exists>i<n. lookupDay (store tm) (dateString now i) \<noteq> None
                 then \<lparr>branches = Some [], tasks = NaN, debugs = NaN, seconds = NaN\<rparr>
                 else \<lparr>branches = Some [], tasks = Num 0, debugs = Num 0, seconds = Num 0\<rparr>))
     \<and> (todayResolves now tm \<and> p \<notin> set prototypeNames \<longrightarrow>
          (\<exists>bs. getStatsForPeriod now keys p n tm =
            Inr \<lparr>branches = Some bs,
                 tasks = Num (\<Sum>i<n. tasksIn (dayValue now tm p (dateString now i))),
                 debugs = Num (\<Sum>i<n. debugsIn (dayValue now tm p (dateString now i))),
                 seconds = Num (\<Sum>i<n. secondsIn (dayValue now tm p (dateString now i)))\<rparr>
          \<and> distinct bs
          \<and> set bs = (\<Union>i<n. branchesIn (dayValue now tm p (dateString now i)))))
     \<and> (\<not> todayResolves now tm \<longrightarrow> getStatsForPeriod now keys p n tm = Inl TypeError)
     \<and> (\<forall>day. lookupProject (store tm) day p = None \<longrightarrow>
           secondsIn (dayValue now tm p day) = 0 \<and> tasksIn (dayValue now tm p day) = 0
           \<and> debugsIn (dayValue now tm p day) = 0 \<and> branchesIn (dayValue now tm p day) = {})
     \<and> (map_of (activeProjects tm) p = None \<longrightarrow>
          (\<forall>day. dayValue now tm p day = lookupProject (store tm) day p))"
proof (intro impI conjI allI)
  assume h: "0 < n \<and> days (store tm) \<noteq> None \<and> completeStore (store tm)"
  then show keys: "getDays now keys n = map (dateString now) [0..<n]"
    by (simp add: getDays_def)
  from h have n: "0 < n" and d: "days (store tm) \<noteq> None" and c: "completeStore (store tm)"
    by simp_all
  {
    assume a: "todayResolves now tm \<and> p \<in> set prototypeNames
        \<and> (\<forall>i<n. lookupProject (store tm) (dateString now i) p = None)"
    then have "\<forall>i\<in>set [0..<n]. lookupProject (store tm) (dateString now i) p = None"
      by simp
    from addDayStats_inherited [OF d c _ _ this, of freshDetails] a
    show "getStatsForPeriod now keys p n tm =
        Inr (if \<exists>i<n. lookupDay (store tm) (dateString now i) \<noteq> None
             then \<lparr>branches = Some [], tasks = NaN, debugs = NaN, seconds = NaN\<rparr>
             else \<lparr>branches = Some [], tasks = Num 0, debugs = Num 0, seconds = Num 0\<rparr>)"
      unfolding getStatsForPeriod_def keys by (simp add: freshDetails_def)
  }
  {
    assume a: "todayResolves now tm \<and> p \<notin> set prototypeNames"
    have e: "distinct ([] :: string list)" by simp
    from a addDayStats_sum [OF d c _ _ e, of now p "[0..<n]" 0 0 0]
    show "\<exists>bs. getStatsForPeriod now keys p n tm =
            Inr \<lparr>branches = Some bs,
                 tasks = Num (\<Sum>i<n. tasksIn (dayValue now tm p (dateString now i))),
                 debugs = Num (\<Sum>i<n. debugsIn (dayValue now tm p (dateString now i))),
                 seconds = Num (\<Sum>i<n. secondsIn (dayValue now tm p (dateString now i)))\<rparr>
          \<and> distinct bs
          \<and> set bs = (\<Union>i<n. branchesIn (dayValue now tm p (dateString now i)))"
      unfolding getStatsForPeriod_def keys freshDetails_def sum_list_upt union_upt by simp
  }
  {
    assume "\<not> todayResolves now tm"
    from getStats_today_throws [OF c this]
    show "getStatsForPeriod now keys p n tm = Inl TypeError"
      unfolding getStatsForPeriod_def keys upt_first [OF n] by simp
  }
next
  fix day
  assume "lookupProject (store tm) day p = None"
  then have "dayValue now tm p day = None" by (simp add: dayValue_def)
  then show "secondsIn (dayValue now tm p day) = 0" "tasksIn (dayValue now tm p day) = 0"
    "debugsIn (dayValue now tm p day) = 0" "branchesIn (dayValue now tm p day) = {}"
    by (simp_all add: secondsIn_def tasksIn_def debugsIn_def branchesIn_def)
next
  fix day
  assume "map_of (activeProjects tm) p = None"
  then show "dayValue now tm p day = lookupProject (store tm) day p"
    by (simp add: dayValue_def split: option.splits)
qed

theorem getStatsForPeriod_aggregates_witness:
  "(0::nat) < 2 \<and> days (store historyManager) \<noteq> None \<and> completeStore (store historyManager)
   \<and> todayResolves clock0 historyManager
   \<and> getDays clock0 [''version'', ''days''] 2 = [''3/11/2026'', ''2/11/2026'']
   \<and> ''constructor'' \<in> set prototypeNames
   \<and> lookupProject (store historyManager) ''3/11/2026'' ''constructor'' = None
   \<and> lookupProject (store historyManager) ''2/11/2026'' ''constructor'' = None
   \<and> getStatsForPeriod clock0 [''version'', ''days''] ''constructor'' 2 historyManager =
        Inr \<lparr>branches = Some [], tasks = NaN, debugs = NaN, seconds = NaN\<rparr>
   \<and> ''proj'' \<notin> set prototypeNames
   \<and> (\<exists>bs. getStatsForPeriod clock0 [''version'', ''days''] ''proj'' 2 historyManager =
          Inr \<lparr>branches = Some bs, tasks = Num 3, debugs = Num 3, seconds = Num 110\<rparr>
        \<and> distinct bs \<and> set bs = {''main'', ''dev''})"
proof -
  let ?keys = "[''version'', ''days'']"
  have h: "(0::nat) < 2 \<and> days (store historyManager) \<noteq> None \<and> completeStore (store historyManager)"
    using historyManager_complete by (simp add: historyManager_def)
  note res = getStatsForPeriod_aggregates [of 2 historyManager clock0 ?keys "''proj''", THEN mp, OF h]
  note bad = getStatsForPeriod_aggregates [of 2 historyManager clock0 ?keys "''constructor''", THEN mp, OF h]
  have two: "[0..<2] = [0, Suc 0]" "{..<2::nat} = {0, Suc 0}"
    by (auto simp: numeral_2_eq_2 upt_rec)
  have np: "''proj'' \<notin> set prototypeNames" and cp: "''constructor'' \<in> set prototypeNames"
    by (simp_all add: prototypeNames_def)
  have k: "getDays clock0 ?keys 2 = [''3/11/2026'', ''2/11/2026'']"
    using res [THEN conjunct1] by (simp add: two dateString_clock0 dateString_clock0_1)
  have hb: "todayResolves clock0 historyManager \<and> ''constructor'' \<in> set prototypeNames
      \<and> (\<forall>i<2. lookupProject (store historyManager) (dateString clock0 i) ''constructor'' = None)"
    using historyManager_resolves cp by (simp add: historyManager_no_constructor)
  have ex: "\<exists>i<2. lookupDay (store historyManager) (dateString clock0 i) \<noteq> None"
    using historyManager_ledger by (intro exI [of _ 0]) simp
  have b: "getStatsForPeriod clock0 ?keys ''constructor'' 2 historyManager =
      Inr \<lparr>branches = Some [], tasks = NaN, debugs = NaN, seconds = NaN\<rparr>"
    using bad [THEN conjunct2, THEN conjunct1, THEN mp, OF hb] ex by simp
  have hg: "todayResolves clock0 historyManager \<and> ''proj'' \<notin> set prototypeNames"
    using historyManager_resolves np by simp
  from res [THEN conjunct2, THEN conjunct2, THEN conjunct1, THEN mp, OF hg]
  have e: "\<exists>bs. getStatsForPeriod clock0 ?keys ''proj'' 2 historyManager =
          Inr \<lparr>branches = Some bs, tasks = Num 3, debugs = Num 3, seconds = Num 110\<rparr>
        \<and> distinct bs \<and> set bs = {''main'', ''dev''}"
    by (simp add: two dateString_clock0 dateString_clock0_1 historyManager_today historyManager_yesterday
        tasksIn_def debugsIn_def secondsIn_def branchesIn_def num_def insert_commute)
  from h k b e np cp historyManager_resolves historyManager_no_constructor show ?thesis
    by (intro conjI) simp_all
qed

end
